theory Spec2Isabelle
  imports Complex_Main "HOL-Library.AList"
begin

section \<open>The BioVault agent client (examples/agent-client/biovault\_agent.py)\<close>

text \<open>
  The client multiplexes many requests over one WebSocket. The embedding follows the
  class \<open>BioVaultAgent\<close>: its fields are the first six fields of the record \<open>world\<close>,
  each coroutine is cut at its suspension points into functions that run atomically on
  the event loop, and every exception the source can raise is a value of \<open>exn\<close>.
\<close>

subsection \<open>Values, exceptions, futures\<close>

text \<open>
  What \<open>json.loads\<close> returns. Floats are left out; a Python dict is the list of its
  items in insertion order, looked up with \<open>map_of\<close>.
\<close>

datatype json =
    JNull
  | JBool bool
  | JInt int
  | JStr string
  | JList "json list"
  | JDict "(string \<times> json) list"

type_synonym pydict = "(string \<times> json) list"

text \<open>
  An inbound text frame is represented by what the codec makes of it: \<open>Undecodable\<close>
  is a text on which \<open>json.loads\<close> raises.
\<close>

datatype frame = Undecodable | Decoded json

text \<open>
  The exceptions that occur. The client has one exception class of its own,
  \<open>BioVaultAgentError\<close>, whose argument is a message or whatever the \<open>error\<close> field of
  a response holds.
\<close>

datatype exn =
    BioVaultAgentError json
  | TimeoutError
  | CancelledError
  | InvalidStateError
  | JSONDecodeError
  | AttributeError
  | TypeError
  | ConnectionClosed
  | OSError

datatype outcome = Return json | Raise exn

text \<open>An \<open>asyncio.Future\<close>: pending, or done in one of three ways.\<close>

datatype future = Pending | Result pydict | Exception exn | Cancelled

definition future_done :: "future \<Rightarrow> bool" where
  "future_done f = (f \<noteq> Pending)"

text \<open>\<open>Future.set_result\<close> raises on a future that is done.\<close>

definition set_result :: "future \<Rightarrow> pydict \<Rightarrow> exn + future" where
  "set_result f d = (if future_done f then Inl InvalidStateError else Inr (Result d))"

text \<open>Python's truth value of a decoded JSON value.\<close>

fun truthy :: "json \<Rightarrow> bool" where
  "truthy JNull = False"
| "truthy (JBool b) = b"
| "truthy (JInt n) = (n \<noteq> 0)"
| "truthy (JStr s) = (s \<noteq> [])"
| "truthy (JList xs) = (xs \<noteq> [])"
| "truthy (JDict d) = (d \<noteq> [])"

text \<open>\<open>d.get(k)\<close>: the value, or None.\<close>

definition dict_get :: "pydict \<Rightarrow> string \<Rightarrow> json" where
  "dict_get d k = (case map_of d k of Some v \<Rightarrow> v | None \<Rightarrow> JNull)"

text \<open>
  Looking a decoded value up in a dict whose keys are ints (\<open>request_id in self._pending\<close>):
  a list or a dict is unhashable, a bool equals the int 0 or 1, None and strings equal no
  int.
\<close>

fun int_key :: "json \<Rightarrow> exn + int option" where
  "int_key (JInt n) = Inr (Some n)"
| "int_key (JBool b) = Inr (Some (if b then 1 else 0))"
| "int_key JNull = Inr None"
| "int_key (JStr s) = Inr None"
| "int_key (JList xs) = Inl TypeError"
| "int_key (JDict d) = Inl TypeError"

subsection \<open>AgentConfig, AgentEvent\<close>

record agent_config =
  host :: string
  port :: int
  token :: "string option"
  timeout :: real
  long_timeout :: real

record agent_event =
  ev_request_id :: json
  event_type :: json
  ev_data :: json

definition from_dict :: "pydict \<Rightarrow> agent_event" where
  "from_dict d =
     \<lparr> ev_request_id = (case map_of d ''id'' of Some v \<Rightarrow> v | None \<Rightarrow> JInt 0),
       event_type = (case map_of d ''type'' of Some v \<Rightarrow> v | None \<Rightarrow> JStr ''unknown''),
       ev_data = (case map_of d ''data'' of Some v \<Rightarrow> v | None \<Rightarrow> JDict []) \<rparr>"

text \<open>
  An event callback is called for its effect; the model keeps what the receive loop can
  see of it: it returns (\<open>None\<close>) or raises an \<open>Exception\<close> with a message.
\<close>

type_synonym event_callback = "agent_event \<Rightarrow> string option"

subsection \<open>The client and its surroundings\<close>

datatype websocket = Open | Closed

datatype task = Running | Finished "exn option"

text \<open>
  The first six fields are the attributes of \<open>BioVaultAgent\<close>. \<open>pending\<close> holds
  references: the futures themselves live in the store \<open>futures\<close>, since the caller that
  awaits a future keeps it after its entry has left the dict. \<open>sent\<close> is what was written
  to the transport, \<open>sink_calls\<close> the callback invocations in order (which callback was
  called, with which event), \<open>printed\<close> the output of \<open>print\<close>.
\<close>

record world =
  config :: agent_config
  ws :: "websocket option"
  request_id :: int
  pending :: "(int \<times> nat) list"
  event_handlers :: "(int \<times> event_callback) list"
  receiver_task :: "task option"
  futures :: "nat \<Rightarrow> future"
  next_future :: nat
  sent :: "json list"
  sink_calls :: "(event_callback \<times> agent_event) list"
  printed :: "string list"

definition LONG_RUNNING_COMMANDS :: "string list" where
  "LONG_RUNNING_COMMANDS =
     [''launch_jupyter'', ''stop_jupyter'', ''reset_jupyter'',
      ''launch_session_jupyter'', ''stop_session_jupyter'', ''reset_session_jupyter'',
      ''sync_messages'', ''sync_messages_with_failures'', ''refresh_messages_batched'',
      ''install_dependencies'', ''install_dependency'', ''install_brew'',
      ''install_command_line_tools'', ''import_pipeline_with_deps'', ''run_pipeline'',
      ''syftbox_upload_action'']"

text \<open>\<open>BioVaultAgent.__init__\<close>.\<close>

definition init :: "agent_config \<Rightarrow> world" where
  "init cfg =
     \<lparr> config = cfg, ws = None, request_id = 0, pending = [], event_handlers = [],
       receiver_task = None, futures = (\<lambda>_. Pending), next_future = 0, sent = [],
       sink_calls = [], printed = [] \<rparr>"

text \<open>
  \<open>connect\<close>: the handshake succeeds or raises; then the receive loop is started. The
  model has one transport at a time.
\<close>

definition connect :: "world \<Rightarrow> bool \<Rightarrow> exn option \<times> world" where
  "connect w handshake_ok =
     (if handshake_ok then (None, w\<lparr>ws := Some Open, receiver_task := Some Running\<rparr>)
      else (Some OSError, w))"

text \<open>
  \<open>disconnect\<close>: cancel the receiver task and await it; a \<open>CancelledError\<close> is swallowed,
  any other exception the task ended with is raised again by the \<open>await\<close>, before the
  socket is closed.
\<close>

definition disconnect :: "world \<Rightarrow> exn option \<times> world" where
  "disconnect w =
     (let w1 = (case receiver_task w of
                  Some Running \<Rightarrow> w\<lparr>receiver_task := Some (Finished (Some CancelledError))\<rparr>
                | _ \<Rightarrow> w);
          raised = (case receiver_task w1 of
                      Some (Finished (Some e)) \<Rightarrow> if e = CancelledError then None else Some e
                    | _ \<Rightarrow> None)
      in case raised of
           Some e \<Rightarrow> (Some e, w1)
         | None \<Rightarrow> (None, case ws w1 of None \<Rightarrow> w1 | Some c \<Rightarrow> w1\<lparr>ws := None\<rparr>))"

subsection \<open>The receive loop\<close>

text \<open>
  The body of the \<open>async for\<close> in \<open>_receive_loop\<close> on one frame: the exception that leaves
  the body, if any, and the new state.
\<close>

definition recv_step :: "world \<Rightarrow> frame \<Rightarrow> exn option \<times> world" where
  "recv_step w fr =
     (case fr of
        Undecodable \<Rightarrow> (Some JSONDecodeError, w)
      | Decoded (JDict d) \<Rightarrow>
          (let rid = dict_get d ''id'' in
           if map_of d ''type'' \<noteq> None then
             (case int_key rid of
                Inl e \<Rightarrow> (Some e, w)
              | Inr None \<Rightarrow> (None, w)
              | Inr (Some k) \<Rightarrow>
                  (case map_of (event_handlers w) k of
                     None \<Rightarrow> (None, w)
                   | Some h \<Rightarrow>
                       (let event = from_dict d in
                        (None, w\<lparr>sink_calls := sink_calls w @ [(h, event)],
                                  printed := (case h event of
                                                None \<Rightarrow> printed w
                                              | Some msg \<Rightarrow> printed w @ [''Event handler error: '' @ msg])\<rparr>))))
           else
             (case int_key rid of
                Inl e \<Rightarrow> (Some e, w)
              | Inr None \<Rightarrow> (None, w)
              | Inr (Some k) \<Rightarrow>
                  (case map_of (pending w) k of
                     None \<Rightarrow> (None, w)
                   | Some a \<Rightarrow>
                       (case set_result (futures w a) d of
                          Inl e \<Rightarrow> (Some e, w)
                        | Inr f \<Rightarrow> (None, w\<lparr>futures := (futures w)(a := f)\<rparr>)))))
      | Decoded _ \<Rightarrow> (Some AttributeError, w))"

text \<open>
  The handler of \<open>websockets.ConnectionClosed\<close>: every future in \<open>pending\<close> that is not
  done gets the exception (\<open>set_exception\<close> is called on pending futures only, where it
  cannot raise).
\<close>

definition fail_one :: "(nat \<Rightarrow> future) \<Rightarrow> nat \<Rightarrow> (nat \<Rightarrow> future)" where
  "fail_one fs a =
     (if \<not> future_done (fs a) then fs(a := Exception (BioVaultAgentError (JStr ''Connection closed'')))
      else fs)"

definition fail_all :: "world \<Rightarrow> world" where
  "fail_all w = w\<lparr>futures := foldl fail_one (futures w) (map snd (pending w))\<rparr>"

text \<open>
  The receiver task. One iteration: a frame is handled by the loop body, and an exception
  that leaves the body ends the task with it (the only \<open>except\<close> clause around the loop is
  the one for \<open>ConnectionClosed\<close>). A task that is not running handles nothing.
\<close>

definition receiver_step :: "world \<Rightarrow> frame \<Rightarrow> world" where
  "receiver_step w fr =
     (if receiver_task w = Some Running then
        (case recv_step w fr of
           (None, w') \<Rightarrow> w'
         | (Some e, w') \<Rightarrow> w'\<lparr>receiver_task := Some (Finished (Some e))\<rparr>)
      else w)"

text \<open>
  How the iteration over the socket ends: it raises \<open>ConnectionClosed\<close>, or it is
  exhausted (the iterator of the websockets library ends without an exception when the
  peer closes normally), or the task is cancelled while it waits for a frame.
\<close>

datatype stream_end = RaisesConnectionClosed | Exhausted | CancelledWhileWaiting

definition receiver_end :: "world \<Rightarrow> stream_end \<Rightarrow> world" where
  "receiver_end w e =
     (if receiver_task w = Some Running then
        (case e of
           RaisesConnectionClosed \<Rightarrow>
             (fail_all w)\<lparr>ws := (case ws w of None \<Rightarrow> None | Some c \<Rightarrow> Some Closed),
                          receiver_task := Some (Finished None)\<rparr>
         | Exhausted \<Rightarrow>
             w\<lparr>ws := (case ws w of None \<Rightarrow> None | Some c \<Rightarrow> Some Closed),
               receiver_task := Some (Finished None)\<rparr>
         | CancelledWhileWaiting \<Rightarrow> w\<lparr>receiver_task := Some (Finished (Some CancelledError))\<rparr>)
      else w)"

text \<open>\<open>_receive_loop\<close> as a whole, on the frames that arrive and the way the stream ends.\<close>

definition receive_loop :: "world \<Rightarrow> frame list \<Rightarrow> stream_end \<Rightarrow> world" where
  "receive_loop w frames e = receiver_end (foldl receiver_step w frames) e"

subsection \<open>invoke and invoke\_with\_events\<close>

text \<open>What a suspended call holds in its local variables.\<close>

record call =
  call_id :: int
  call_future :: nat
  call_cmd :: string
  call_timeout :: real

text \<open>
  \<open>asyncio.wait_for(future, timeout)\<close>. While the caller is suspended in it, three things
  can reach the caller: its future is settled; the timer runs out (\<open>Elapsed s\<close> says that
  \<open>s\<close> seconds have passed since the wait began); the caller is cancelled. A \<open>wake\<close> names
  what asyncio delivers to the caller at its next turn.

  When the timer runs out or the caller is cancelled while the future is pending,
  \<open>wait_for\<close> cancels the future, and the caller gets its turn only one round of the event
  loop later: until then the entry of the call is still in \<open>pending\<close>, with a cancelled
  future, and other tasks run. \<open>wait_for_cancel\<close> is that first half.
\<close>

datatype wake = Settled | Elapsed real | CancelRequested

definition signal_due :: "real \<Rightarrow> wake \<Rightarrow> bool" where
  "signal_due t wk = (case wk of Settled \<Rightarrow> False | Elapsed s \<Rightarrow> t \<le> s | CancelRequested \<Rightarrow> True)"

definition wait_for_cancel :: "world \<Rightarrow> call \<Rightarrow> wake \<Rightarrow> world" where
  "wait_for_cancel w c wk =
     (if signal_due (call_timeout c) wk \<and> futures w (call_future c) = Pending
      then w\<lparr>futures := (futures w)(call_future c := Cancelled)\<rparr>
      else w)"

text \<open>
  What \<open>await future\<close> gives on a future that is done: its result, its exception, or
  \<open>CancelledError\<close>.
\<close>

fun future_outcome :: "future \<Rightarrow> (exn + pydict) option" where
  "future_outcome Pending = None"
| "future_outcome (Result d) = Some (Inr d)"
| "future_outcome (Exception e) = Some (Inl e)"
| "future_outcome Cancelled = Some (Inl CancelledError)"

text \<open>
  The second half: what \<open>wait_for\<close> returns or raises at the caller's turn. \<open>None\<close>: the
  caller does not get this turn (its future is still pending). Before the timeout has run
  out the caller gets what its future holds. Where the future is settled and the timer
  has run out as well, or a cancellation has been requested, before the caller's turn,
  the versions of Python differ: up to 3.11 the settled future wins, from 3.12 the timer
  or the cancellation does. The wake says which of them is delivered (\<open>Settled\<close>: the
  future; \<open>Elapsed s\<close> with the timeout run out: \<open>TimeoutError\<close>; \<open>CancelRequested\<close>:
  \<open>CancelledError\<close>), so that both behaviours are runs of the model.
\<close>

definition wait_for :: "future \<Rightarrow> real \<Rightarrow> wake \<Rightarrow> (exn + pydict) option" where
  "wait_for f t wk =
     (case wk of
        Settled \<Rightarrow> future_outcome f
      | Elapsed s \<Rightarrow>
          if s < t then future_outcome f
          else if f = Pending then None else Some (Inl TimeoutError)
      | CancelRequested \<Rightarrow> if f = Pending then None else Some (Inl CancelledError))"

text \<open>The last two statements of \<open>invoke\<close>, on the response.\<close>

definition finish :: "pydict \<Rightarrow> outcome" where
  "finish response =
     (if map_of response ''error'' \<noteq> None \<and> truthy (dict_get response ''error'')
      then Raise (BioVaultAgentError (dict_get response ''error''))
      else Return (dict_get response ''result''))"

text \<open>
  \<open>invoke\<close> up to its suspension in \<open>wait_for\<close>: the check of the connection, the id, the
  request, the timeout, the future, the send. The send is taken to finish without
  another task running in between. A send on a closed socket raises, and the \<open>finally\<close>
  clause removes the entry.
\<close>

definition invoke_begin ::
  "world \<Rightarrow> string \<Rightarrow> pydict option \<Rightarrow> real option \<Rightarrow> (exn + call) \<times> world" where
  "invoke_begin w cmd args tmo =
     (if ws w = None then (Inl (BioVaultAgentError (JStr ''Not connected'')), w)
      else
        (let rid = request_id w + 1;
             request = [(''id'', JInt rid), (''cmd'', JStr cmd),
                        (''args'', JDict (case args of None \<Rightarrow> [] | Some a \<Rightarrow> a))]
                       @ (case token (config w) of
                            None \<Rightarrow> []
                          | Some t \<Rightarrow> if t \<noteq> [] then [(''token'', JStr t)] else []);
             t = (case tmo of
                    None \<Rightarrow> if cmd \<in> set LONG_RUNNING_COMMANDS then long_timeout (config w)
                            else timeout (config w)
                  | Some t \<Rightarrow> t);
             a = next_future w;
             w1 = w\<lparr>request_id := rid, futures := (futures w)(a := Pending),
                    next_future := Suc a, pending := AList.update rid a (pending w)\<rparr>
         in if ws w = Some Open
            then (Inr \<lparr>call_id = rid, call_future = a, call_cmd = cmd, call_timeout = t\<rparr>,
                  w1\<lparr>sent := sent w1 @ [JDict request]\<rparr>)
            else (Inl ConnectionClosed, w1\<lparr>pending := AList.delete rid (pending w1)\<rparr>)))"

text \<open>
  The rest of \<open>invoke\<close>, at the caller's turn in state \<open>w\<close>: the \<open>except\<close> clause turns
  a \<open>TimeoutError\<close> into the client's error, the \<open>finally\<close> clause removes the entry on
  every path.
\<close>

definition invoke_resume :: "world \<Rightarrow> call \<Rightarrow> wake \<Rightarrow> (outcome \<times> world) option" where
  "invoke_resume w c wk =
     (case wait_for (futures w (call_future c)) (call_timeout c) wk of
        None \<Rightarrow> None
      | Some r \<Rightarrow>
          Some (case r of
                  Inl e \<Rightarrow>
                    (if e = TimeoutError
                     then Raise (BioVaultAgentError
                            (JStr (''Timeout waiting for response to '' @ call_cmd c)))
                     else Raise e)
                | Inr response \<Rightarrow> finish response,
                w\<lparr>pending := AList.delete (call_id c) (pending w)\<rparr>))"

text \<open>
  The end of the wait when no other task runs between the two halves: the timer or the
  cancellation, if due, cancels the pending future, and the caller has its turn at once.
\<close>

definition invoke_end :: "world \<Rightarrow> call \<Rightarrow> wake \<Rightarrow> (outcome \<times> world) option" where
  "invoke_end w c wk = invoke_resume (wait_for_cancel w c wk) c wk"

text \<open>\<open>invoke_with_events\<close>, cut in the same way.\<close>

definition invoke_with_events_begin ::
  "world \<Rightarrow> string \<Rightarrow> pydict option \<Rightarrow> event_callback option \<Rightarrow> real option
     \<Rightarrow> (exn + call) \<times> world" where
  "invoke_with_events_begin w cmd args on_event tmo =
     (if ws w = None then (Inl (BioVaultAgentError (JStr ''Not connected'')), w)
      else
        (let rid = request_id w + 1;
             request = [(''id'', JInt rid), (''cmd'', JStr cmd),
                        (''args'', JDict (case args of None \<Rightarrow> [] | Some a \<Rightarrow> a))]
                       @ (case token (config w) of
                            None \<Rightarrow> []
                          | Some t \<Rightarrow> if t \<noteq> [] then [(''token'', JStr t)] else []);
             t = (case tmo of
                    None \<Rightarrow> if cmd \<in> set LONG_RUNNING_COMMANDS then long_timeout (config w)
                            else timeout (config w)
                  | Some t \<Rightarrow> t);
             a = next_future w;
             w1 = w\<lparr>request_id := rid, futures := (futures w)(a := Pending),
                    next_future := Suc a, pending := AList.update rid a (pending w)\<rparr>;
             w2 = (case on_event of
                     None \<Rightarrow> w1
                   | Some h \<Rightarrow> w1\<lparr>event_handlers := AList.update rid h (event_handlers w1)\<rparr>)
         in if ws w = Some Open
            then (Inr \<lparr>call_id = rid, call_future = a, call_cmd = cmd, call_timeout = t\<rparr>,
                  w2\<lparr>sent := sent w2 @ [JDict request]\<rparr>)
            else (Inl ConnectionClosed,
                  w2\<lparr>pending := AList.delete rid (pending w2),
                     event_handlers := AList.delete rid (event_handlers w2)\<rparr>)))"

definition invoke_with_events_resume ::
  "world \<Rightarrow> call \<Rightarrow> wake \<Rightarrow> (outcome \<times> world) option" where
  "invoke_with_events_resume w c wk =
     (case wait_for (futures w (call_future c)) (call_timeout c) wk of
        None \<Rightarrow> None
      | Some r \<Rightarrow>
          Some (case r of
                  Inl e \<Rightarrow>
                    (if e = TimeoutError
                     then Raise (BioVaultAgentError
                            (JStr (''Timeout waiting for response to '' @ call_cmd c)))
                     else Raise e)
                | Inr response \<Rightarrow> finish response,
                w\<lparr>pending := AList.delete (call_id c) (pending w),
                  event_handlers := AList.delete (call_id c) (event_handlers w)\<rparr>))"

definition invoke_with_events_end ::
  "world \<Rightarrow> call \<Rightarrow> wake \<Rightarrow> (outcome \<times> world) option" where
  "invoke_with_events_end w c wk = invoke_with_events_resume (wait_for_cancel w c wk) c wk"

text \<open>
  A call as a whole, when nothing but the receiver task runs while it is suspended: the
  frames arrive after the request has been sent, then the wait ends as \<open>invoke_end\<close>
  says. \<open>None\<close>: the caller is still waiting.
\<close>

definition invoke ::
  "world \<Rightarrow> string \<Rightarrow> pydict option \<Rightarrow> real option \<Rightarrow> frame list \<Rightarrow> wake
     \<Rightarrow> (outcome \<times> world) option" where
  "invoke w cmd args tmo frames wk =
     (case invoke_begin w cmd args tmo of
        (Inl e, w1) \<Rightarrow> Some (Raise e, w1)
      | (Inr c, w1) \<Rightarrow> invoke_end (foldl receiver_step w1 frames) c wk)"

definition invoke_with_events ::
  "world \<Rightarrow> string \<Rightarrow> pydict option \<Rightarrow> event_callback option \<Rightarrow> real option
     \<Rightarrow> frame list \<Rightarrow> wake \<Rightarrow> (outcome \<times> world) option" where
  "invoke_with_events w cmd args on_event tmo frames wk =
     (case invoke_with_events_begin w cmd args on_event tmo of
        (Inl e, w1) \<Rightarrow> Some (Raise e, w1)
      | (Inr c, w1) \<Rightarrow> invoke_with_events_end (foldl receiver_step w1 frames) c wk)"

subsection \<open>Interleavings\<close>

text \<open>
  Callers and the receiver task take turns on the event loop. A \<open>system\<close> is the client
  together with the callers suspended in \<open>wait_for\<close> (by request id, with the coroutine
  they run), the outcomes of the calls that have ended, in order, and the ids that have
  been handed out, in order. \<open>Signal\<close> is the first half of the end of a wait (the timer or a
  cancellation reaches a suspended caller), \<open>Resume\<close> the second (the caller's turn), and
  \<open>Wake\<close> both at once.
\<close>

record system =
  agent :: world
  suspended :: "(int \<times> bool \<times> call) list"
  outcomes :: "(int option \<times> outcome) list"
  issued :: "int list"

datatype action =
    Invoke string "pydict option" "real option"
  | InvokeWithEvents string "pydict option" "event_callback option" "real option"
  | Frame frame
  | StreamEnd stream_end
  | Signal int wake
  | Resume int wake
  | Wake int wake
  | Connect bool
  | Disconnect

definition started :: "system \<Rightarrow> bool \<Rightarrow> (exn + call) \<times> world \<Rightarrow> system" where
  "started s with_events r =
     (let w' = snd r;
          ids = issued s @ (if request_id w' = request_id (agent s) then [] else [request_id w'])
      in case fst r of
           Inr c \<Rightarrow> s\<lparr>agent := w', suspended := AList.update (call_id c) (with_events, c) (suspended s),
                      issued := ids\<rparr>
         | Inl e \<Rightarrow> s\<lparr>agent := w',
                      outcomes := outcomes s @
                        [(if request_id w' = request_id (agent s) then None else Some (request_id w'),
                          Raise e)],
                      issued := ids\<rparr>)"

fun step :: "system \<Rightarrow> action \<Rightarrow> system" where
  "step s (Invoke cmd args tmo) = started s False (invoke_begin (agent s) cmd args tmo)"
| "step s (InvokeWithEvents cmd args on_event tmo) =
     started s True (invoke_with_events_begin (agent s) cmd args on_event tmo)"
| "step s (Frame fr) = s\<lparr>agent := receiver_step (agent s) fr\<rparr>"
| "step s (StreamEnd e) = s\<lparr>agent := receiver_end (agent s) e\<rparr>"
| "step s (Signal rid wk) =
     (case map_of (suspended s) rid of
        None \<Rightarrow> s
      | Some (with_events, c) \<Rightarrow> s\<lparr>agent := wait_for_cancel (agent s) c wk\<rparr>)"
| "step s (Resume rid wk) =
     (case map_of (suspended s) rid of
        None \<Rightarrow> s
      | Some (with_events, c) \<Rightarrow>
          (case (if with_events then invoke_with_events_resume (agent s) c wk
                 else invoke_resume (agent s) c wk) of
             None \<Rightarrow> s
           | Some (out, w') \<Rightarrow>
               s\<lparr>agent := w', suspended := AList.delete rid (suspended s),
                 outcomes := outcomes s @ [(Some rid, out)]\<rparr>))"
| "step s (Wake rid wk) =
     (case map_of (suspended s) rid of
        None \<Rightarrow> s
      | Some (with_events, c) \<Rightarrow>
          (case (if with_events then invoke_with_events_end (agent s) c wk
                 else invoke_end (agent s) c wk) of
             None \<Rightarrow> s
           | Some (out, w') \<Rightarrow>
               s\<lparr>agent := w', suspended := AList.delete rid (suspended s),
                 outcomes := outcomes s @ [(Some rid, out)]\<rparr>))"
| "step s (Connect handshake_ok) = s\<lparr>agent := snd (connect (agent s) handshake_ok)\<rparr>"
| "step s Disconnect = s\<lparr>agent := snd (disconnect (agent s))\<rparr>"

definition run :: "system \<Rightarrow> action list \<Rightarrow> system" where
  "run s acts = foldl step s acts"

text \<open>A new client, and the defaults of \<open>AgentConfig\<close>.\<close>

definition boot :: "agent_config \<Rightarrow> system" where
  "boot cfg = \<lparr> agent = init cfg, suspended = [], outcomes = [], issued = [] \<rparr>"

definition default_config :: agent_config where
  "default_config =
     \<lparr> host = ''127.0.0.1'', port = 3333, token = None, timeout = 30, long_timeout = 180 \<rparr>"

section \<open>Properties\<close>

subsection \<open>Basic facts about the phases of a call\<close>

lemma invoke_begin_open:
  "ws w = Some Open \<Longrightarrow>
   \<exists>c w1. invoke_begin w cmd args tmo = (Inr c, w1) \<and> call_id c = request_id w + 1 \<and>
     call_future c = next_future w \<and> call_cmd c = cmd \<and>
     call_timeout c = (case tmo of Some t \<Rightarrow> t
                       | None \<Rightarrow> if cmd \<in> set LONG_RUNNING_COMMANDS then long_timeout (config w)
                                 else timeout (config w)) \<and>
     map_of (pending w1) (request_id w + 1) = Some (next_future w) \<and>
     futures w1 (next_future w) = Pending \<and> receiver_task w1 = receiver_task w \<and>
     event_handlers w1 = event_handlers w \<and> ws w1 = ws w \<and> request_id w1 = request_id w + 1"
  by (simp add: invoke_begin_def Let_def AList.update_conv' split: option.split)

lemma wait_for_cancel_done:
  "futures w (call_future c) \<noteq> Pending \<Longrightarrow> wait_for_cancel w c wk = w"
  by (simp add: wait_for_cancel_def)

lemma wait_for_cancel_early:
  "\<not> signal_due (call_timeout c) wk \<Longrightarrow> wait_for_cancel w c wk = w"
  by (simp add: wait_for_cancel_def)

lemma wait_for_cancel_pending:
  "futures w (call_future c) = Pending \<Longrightarrow> signal_due (call_timeout c) wk \<Longrightarrow>
   wait_for_cancel w c wk = w\<lparr>futures := (futures w)(call_future c := Cancelled)\<rparr>"
  by (simp add: wait_for_cancel_def)

lemma wait_for_before_timeout:
  "wk = Settled \<or> (\<exists>s. wk = Elapsed s \<and> s < t) \<Longrightarrow> wait_for f t wk = future_outcome f"
  by (auto simp: wait_for_def)

lemma invoke_end_Result:
  assumes "futures w (call_future c) = Result d"
    and "wk = Settled \<or> (\<exists>s. wk = Elapsed s \<and> s < call_timeout c)"
  shows "\<exists>w'. invoke_end w c wk = Some (finish d, w')"
proof -
  have "wait_for_cancel w c wk = w"
    using assms(1) by (simp add: wait_for_cancel_done)
  moreover have "wait_for (Result d) (call_timeout c) wk = Some (Inr d)"
    using wait_for_before_timeout[OF assms(2), of "Result d"] by simp
  ultimately show ?thesis
    using assms(1) by (simp add: invoke_end_def invoke_resume_def)
qed

lemma receiver_step_response:
  assumes "receiver_task w = Some Running" and "map_of d ''type'' = None"
    and "dict_get d ''id'' = JInt k" and "map_of (pending w) k = Some a"
    and "futures w a = Pending"
  shows "receiver_step w (Decoded (JDict d)) = w\<lparr>futures := (futures w)(a := Result d)\<rparr>"
  using assms by (simp add: receiver_step_def recv_step_def set_result_def future_done_def)

lemma connected_world:
  "ws (snd (connect (init default_config) True)) = Some Open"
  "receiver_task (snd (connect (init default_config) True)) = Some Running"
  "request_id (snd (connect (init default_config) True)) = 0"
  "event_handlers (snd (connect (init default_config) True)) = []"
  "pending (snd (connect (init default_config) True)) = []"
  "config (snd (connect (init default_config) True)) = default_config"
  by (simp_all add: connect_def init_def)

subsection \<open>The outcome of a call is read off its response\<close>

text \<open>
  C7. A call is made on an open connection and its response (a frame without \<open>type\<close>
  that carries the call's id) arrives. When the caller then has its turn on the settled
  future, or at any moment before its timeout has run out, the call ends, and its outcome
  is a function of the response: an \<open>error\<close> field with a true value (for a string: a
  non-empty one) is raised, unchanged, as the client's error; otherwise the value of the
  \<open>result\<close> field is returned as it is; and None is returned when there is no \<open>result\<close>
  field either.
\<close>

theorem invoke_outcome_follows_response:
  assumes "ws w = Some Open" and "receiver_task w = Some Running"
    and "map_of resp ''type'' = None" and "dict_get resp ''id'' = JInt (request_id w + 1)"
    and "wk = Settled \<or>
         (\<exists>s. wk = Elapsed s \<and>
              s < (case tmo of
                     Some t \<Rightarrow> t
                   | None \<Rightarrow> if cmd \<in> set LONG_RUNNING_COMMANDS then long_timeout (config w)
                             else timeout (config w)))"
  shows "\<exists>w'. invoke w cmd args tmo [Decoded (JDict resp)] wk =
           Some (case map_of resp ''error'' of
                   Some e \<Rightarrow>
                     if truthy e then Raise (BioVaultAgentError e)
                     else Return (case map_of resp ''result'' of Some v \<Rightarrow> v | None \<Rightarrow> JNull)
                 | None \<Rightarrow>
                     Return (case map_of resp ''result'' of Some v \<Rightarrow> v | None \<Rightarrow> JNull), w')"
proof -
  obtain c w1 where b: "invoke_begin w cmd args tmo = (Inr c, w1)"
    "call_future c = next_future w"
    "map_of (pending w1) (request_id w + 1) = Some (next_future w)"
    "futures w1 (next_future w) = Pending" "receiver_task w1 = receiver_task w"
    "call_timeout c = (case tmo of Some t \<Rightarrow> t
                       | None \<Rightarrow> if cmd \<in> set LONG_RUNNING_COMMANDS then long_timeout (config w)
                                 else timeout (config w))"
    using invoke_begin_open[OF assms(1), of cmd args tmo] by blast
  have "receiver_step w1 (Decoded (JDict resp)) =
          w1\<lparr>futures := (futures w1)(next_future w := Result resp)\<rparr>"
    using receiver_step_response[of w1 resp "request_id w + 1" "next_future w"] b assms
    by simp
  then have f: "futures (receiver_step w1 (Decoded (JDict resp))) (call_future c) = Result resp"
    using b by simp
  have k: "wk = Settled \<or> (\<exists>s. wk = Elapsed s \<and> s < call_timeout c)"
    using assms(5) b(6) by simp
  from invoke_end_Result[OF f k]
  obtain w' where
    "invoke_end (receiver_step w1 (Decoded (JDict resp))) c wk = Some (finish resp, w')"
    by blast
  then have "invoke w cmd args tmo [Decoded (JDict resp)] wk = Some (finish resp, w')"
    using b by (simp add: invoke_def)
  then show ?thesis
    by (auto simp: finish_def dict_get_def split: option.splits)
qed

theorem invoke_outcome_follows_response_witness:
  "ws (snd (connect (init default_config) True)) = Some Open
   \<and> receiver_task (snd (connect (init default_config) True)) = Some Running
   \<and> map_of [(''id'', JInt 1), (''error'', JStr ''Unhandled command'')] ''type'' = None
   \<and> dict_get [(''id'', JInt 1), (''error'', JStr ''Unhandled command'')] ''id''
       = JInt (request_id (snd (connect (init default_config) True)) + 1)
   \<and> (1::real) < timeout (config (snd (connect (init default_config) True)))
   \<and> (\<exists>w'. invoke (snd (connect (init default_config) True)) ''bad_cmd'' None None
              [Decoded (JDict [(''id'', JInt 1), (''error'', JStr ''Unhandled command'')])]
              (Elapsed 1)
            = Some (Raise (BioVaultAgentError (JStr ''Unhandled command'')), w'))"
proof -
  let ?w = "snd (connect (init default_config) True)"
  have h1: "ws ?w = Some Open" and h2: "receiver_task ?w = Some Running"
    by (rule connected_world)+
  have h3: "map_of [(''id'', JInt 1), (''error'', JStr ''Unhandled command'')] ''type'' = None"
    by simp
  have h4: "dict_get [(''id'', JInt 1), (''error'', JStr ''Unhandled command'')] ''id''
              = JInt (request_id ?w + 1)"
    by (simp add: dict_get_def connected_world)
  have t: "(1::real) < timeout (config ?w)"
    by (simp add: connect_def init_def default_config_def)
  have h5: "Elapsed 1 = Settled \<or>
         (\<exists>s. Elapsed 1 = Elapsed s \<and>
              s < (case None of
                     Some t \<Rightarrow> t
                   | None \<Rightarrow> if ''bad_cmd'' \<in> set LONG_RUNNING_COMMANDS
                             then long_timeout (config ?w) else timeout (config ?w)))"
    using t by (simp add: LONG_RUNNING_COMMANDS_def)
  show ?thesis
    using h1 h2 h3 h4 t
      invoke_outcome_follows_response[OF h1 h2 h3 h4 h5, of None]
    by simp
qed

lemma invoke_with_events_begin_open:
  "ws w = Some Open \<Longrightarrow>
   \<exists>c w1. invoke_with_events_begin w cmd args on_event tmo = (Inr c, w1) \<and>
     call_id c = request_id w + 1 \<and> call_future c = next_future w \<and> call_cmd c = cmd \<and>
     call_timeout c = (case tmo of Some t \<Rightarrow> t
                       | None \<Rightarrow> if cmd \<in> set LONG_RUNNING_COMMANDS then long_timeout (config w)
                                 else timeout (config w)) \<and>
     map_of (pending w1) (request_id w + 1) = Some (next_future w) \<and>
     futures w1 (next_future w) = Pending \<and> receiver_task w1 = receiver_task w \<and>
     event_handlers w1 = (case on_event of None \<Rightarrow> event_handlers w
                          | Some h \<Rightarrow> AList.update (request_id w + 1) h (event_handlers w)) \<and>
     ws w1 = ws w \<and> request_id w1 = request_id w + 1 \<and> sink_calls w1 = sink_calls w \<and>
     printed w1 = printed w"
  by (simp add: invoke_with_events_begin_def Let_def AList.update_conv' split: option.split)

lemma map_of_in_keys: "map_of xs k = Some v \<Longrightarrow> k \<in> fst ` set xs"
  by (metis domI dom_map_of_conv_image_fst)

lemma invoke_resume_retires:
  "invoke_resume w c wk = Some (out, w') \<Longrightarrow> call_id c \<notin> fst ` set (pending w')"
  by (auto simp: invoke_resume_def AList.delete_eq split: option.splits)

lemma invoke_with_events_resume_retires:
  "invoke_with_events_resume w c wk = Some (out, w') \<Longrightarrow>
   call_id c \<notin> fst ` set (pending w') \<and> call_id c \<notin> fst ` set (event_handlers w')"
  by (auto simp: invoke_with_events_resume_def AList.delete_eq split: option.splits)

lemma invoke_end_retires:
  "invoke_end w c wk = Some (out, w') \<Longrightarrow> call_id c \<notin> fst ` set (pending w')"
  unfolding invoke_end_def by (rule invoke_resume_retires)

lemma invoke_with_events_end_retires:
  "invoke_with_events_end w c wk = Some (out, w') \<Longrightarrow>
   call_id c \<notin> fst ` set (pending w') \<and> call_id c \<notin> fst ` set (event_handlers w')"
  unfolding invoke_with_events_end_def by (rule invoke_with_events_resume_retires)

lemma wait_for_after_signal:
  "signal_due (call_timeout c) wk \<Longrightarrow>
   wait_for (futures (wait_for_cancel w c wk) (call_future c)) (call_timeout c) wk \<noteq> None"
  by (cases wk) (auto simp: wait_for_def wait_for_cancel_def signal_due_def)

lemma signal_due_simps:
  "signal_due t CancelRequested" "signal_due t (Elapsed t)" "\<not> signal_due t Settled"
  "signal_due t (Elapsed s) = (t \<le> s)"
  by (simp_all add: signal_due_def)

lemma invoke_end_wakes:
  "invoke_end w c CancelRequested \<noteq> None" "invoke_end w c (Elapsed (call_timeout c)) \<noteq> None"
  using wait_for_after_signal[of c CancelRequested w]
    wait_for_after_signal[of c "Elapsed (call_timeout c)" w]
  by (auto simp: invoke_end_def invoke_resume_def signal_due_simps split: option.splits)

lemma invoke_with_events_end_wakes:
  "invoke_with_events_end w c CancelRequested \<noteq> None"
  "invoke_with_events_end w c (Elapsed (call_timeout c)) \<noteq> None"
  using wait_for_after_signal[of c CancelRequested w]
    wait_for_after_signal[of c "Elapsed (call_timeout c)" w]
  by (auto simp: invoke_with_events_end_def invoke_with_events_resume_def signal_due_simps
      split: option.splits)

subsection \<open>Retirement of the pending entry\<close>

text \<open>
  C8. A call of \<open>invoke\<close> or of \<open>invoke_with_events\<close> on an open connection registers
  its id in \<open>pending\<close>. In whatever state the caller later resumes, and whatever wakes it
  (its future settled with a response or with the connection failure, the timeout, a
  cancellation), the call ends with its id absent from \<open>pending\<close>, and for
  \<open>invoke_with_events\<close> absent from \<open>event_handlers\<close> too; this holds as well when other
  tasks have run between the cancellation of the future and the caller's turn. The
  timeout and the cancellation do end the call in every state.
\<close>

theorem pending_entry_retired_on_every_path:
  assumes "ws w = Some Open"
  shows "(\<exists>c w1. invoke_begin w cmd args tmo = (Inr c, w1) \<and>
            call_id c \<in> fst ` set (pending w1) \<and>
            (\<forall>w2 wk out w3. invoke_end w2 c wk = Some (out, w3) \<longrightarrow>
               call_id c \<notin> fst ` set (pending w3)) \<and>
            (\<forall>w2 wk out w3. invoke_resume w2 c wk = Some (out, w3) \<longrightarrow>
               call_id c \<notin> fst ` set (pending w3)) \<and>
            (\<forall>w2. invoke_end w2 c CancelRequested \<noteq> None \<and>
                  invoke_end w2 c (Elapsed (call_timeout c)) \<noteq> None))
       \<and> (\<exists>c w1. invoke_with_events_begin w cmd args on_event tmo = (Inr c, w1) \<and>
            call_id c \<in> fst ` set (pending w1) \<and>
            (\<forall>w2 wk out w3. invoke_with_events_end w2 c wk = Some (out, w3) \<longrightarrow>
               call_id c \<notin> fst ` set (pending w3) \<and>
               call_id c \<notin> fst ` set (event_handlers w3)) \<and>
            (\<forall>w2 wk out w3. invoke_with_events_resume w2 c wk = Some (out, w3) \<longrightarrow>
               call_id c \<notin> fst ` set (pending w3) \<and>
               call_id c \<notin> fst ` set (event_handlers w3)) \<and>
            (\<forall>w2. invoke_with_events_end w2 c CancelRequested \<noteq> None \<and>
                  invoke_with_events_end w2 c (Elapsed (call_timeout c)) \<noteq> None))"
proof
  obtain c w1 where b: "invoke_begin w cmd args tmo = (Inr c, w1)"
    "call_id c = request_id w + 1"
    "map_of (pending w1) (request_id w + 1) = Some (next_future w)"
    using invoke_begin_open[OF assms, of cmd args tmo] by blast
  have k: "call_id c \<in> fst ` set (pending w1)"
    using b(2,3) map_of_in_keys[of "pending w1" "call_id c"] by simp
  have r: "\<forall>w2 wk out w3. invoke_end w2 c wk = Some (out, w3) \<longrightarrow>
             call_id c \<notin> fst ` set (pending w3)"
    using invoke_end_retires by blast
  have r': "\<forall>w2 wk out w3. invoke_resume w2 c wk = Some (out, w3) \<longrightarrow>
             call_id c \<notin> fst ` set (pending w3)"
    using invoke_resume_retires by blast
  have e: "\<forall>w2. invoke_end w2 c CancelRequested \<noteq> None \<and>
                invoke_end w2 c (Elapsed (call_timeout c)) \<noteq> None"
    by (simp add: invoke_end_wakes)
  show "\<exists>c w1. invoke_begin w cmd args tmo = (Inr c, w1) \<and>
            call_id c \<in> fst ` set (pending w1) \<and>
            (\<forall>w2 wk out w3. invoke_end w2 c wk = Some (out, w3) \<longrightarrow>
               call_id c \<notin> fst ` set (pending w3)) \<and>
            (\<forall>w2 wk out w3. invoke_resume w2 c wk = Some (out, w3) \<longrightarrow>
               call_id c \<notin> fst ` set (pending w3)) \<and>
            (\<forall>w2. invoke_end w2 c CancelRequested \<noteq> None \<and>
                  invoke_end w2 c (Elapsed (call_timeout c)) \<noteq> None)"
    by (rule exI[of _ c], rule exI[of _ w1]) (intro conjI; fact)
next
  obtain c w1 where b: "invoke_with_events_begin w cmd args on_event tmo = (Inr c, w1)"
    "call_id c = request_id w + 1"
    "map_of (pending w1) (request_id w + 1) = Some (next_future w)"
    using invoke_with_events_begin_open[OF assms, of cmd args on_event tmo] by blast
  have k: "call_id c \<in> fst ` set (pending w1)"
    using b(2,3) map_of_in_keys[of "pending w1" "call_id c"] by simp
  have r: "\<forall>w2 wk out w3. invoke_with_events_end w2 c wk = Some (out, w3) \<longrightarrow>
             call_id c \<notin> fst ` set (pending w3) \<and>
             call_id c \<notin> fst ` set (event_handlers w3)"
    using invoke_with_events_end_retires by blast
  have r': "\<forall>w2 wk out w3. invoke_with_events_resume w2 c wk = Some (out, w3) \<longrightarrow>
             call_id c \<notin> fst ` set (pending w3) \<and>
             call_id c \<notin> fst ` set (event_handlers w3)"
    using invoke_with_events_resume_retires by blast
  have e: "\<forall>w2. invoke_with_events_end w2 c CancelRequested \<noteq> None \<and>
                invoke_with_events_end w2 c (Elapsed (call_timeout c)) \<noteq> None"
    by (simp add: invoke_with_events_end_wakes)
  show "\<exists>c w1. invoke_with_events_begin w cmd args on_event tmo = (Inr c, w1) \<and>
            call_id c \<in> fst ` set (pending w1) \<and>
            (\<forall>w2 wk out w3. invoke_with_events_end w2 c wk = Some (out, w3) \<longrightarrow>
               call_id c \<notin> fst ` set (pending w3) \<and>
               call_id c \<notin> fst ` set (event_handlers w3)) \<and>
            (\<forall>w2 wk out w3. invoke_with_events_resume w2 c wk = Some (out, w3) \<longrightarrow>
               call_id c \<notin> fst ` set (pending w3) \<and>
               call_id c \<notin> fst ` set (event_handlers w3)) \<and>
            (\<forall>w2. invoke_with_events_end w2 c CancelRequested \<noteq> None \<and>
                  invoke_with_events_end w2 c (Elapsed (call_timeout c)) \<noteq> None)"
    by (rule exI[of _ c], rule exI[of _ w1]) (intro conjI; fact)
qed

theorem pending_entry_retired_on_every_path_witness:
  "ws (snd (connect (init default_config) True)) = Some Open
   \<and> (\<exists>c w1 out w3.
         invoke_begin (snd (connect (init default_config) True)) ''ping'' None None = (Inr c, w1)
         \<and> call_id c \<in> fst ` set (pending w1)
         \<and> invoke_end w1 c CancelRequested = Some (out, w3)
         \<and> call_id c \<notin> fst ` set (pending w3))"
proof -
  have h: "ws (snd (connect (init default_config) True)) = Some Open"
    by (rule connected_world)
  from pending_entry_retired_on_every_path[OF h, of "''ping''" None None None, THEN conjunct1]
  obtain c w1 where
    b: "invoke_begin (snd (connect (init default_config) True)) ''ping'' None None = (Inr c, w1)"
       "call_id c \<in> fst ` set (pending w1)"
       "\<forall>w2 wk out w3. invoke_end w2 c wk = Some (out, w3) \<longrightarrow>
           call_id c \<notin> fst ` set (pending w3)"
       "\<forall>w2 wk out w3. invoke_resume w2 c wk = Some (out, w3) \<longrightarrow>
           call_id c \<notin> fst ` set (pending w3)"
       "\<forall>w2. invoke_end w2 c CancelRequested \<noteq> None \<and>
             invoke_end w2 c (Elapsed (call_timeout c)) \<noteq> None"
    by (elim exE conjE)
  from b(5) have "invoke_end w1 c CancelRequested \<noteq> None" by simp
  then obtain out w3 where e: "invoke_end w1 c CancelRequested = Some (out, w3)"
    by (cases "invoke_end w1 c CancelRequested") auto
  with b(3) have n: "call_id c \<notin> fst ` set (pending w3)" by blast
  have "\<exists>c w1 out w3.
         invoke_begin (snd (connect (init default_config) True)) ''ping'' None None = (Inr c, w1)
         \<and> call_id c \<in> fst ` set (pending w1)
         \<and> invoke_end w1 c CancelRequested = Some (out, w3)
         \<and> call_id c \<notin> fst ` set (pending w3)"
    by (rule exI[of _ c], rule exI[of _ w1], rule exI[of _ out], rule exI[of _ w3])
       (intro conjI; fact)
  with h show ?thesis by (rule conjI)
qed

subsection \<open>The timeout of a call\<close>

lemma invoke_end_before_timeout:
  "s < call_timeout c \<Longrightarrow> invoke_end w c (Elapsed s) = invoke_end w c Settled"
  by (simp add: invoke_end_def invoke_resume_def wait_for_cancel_def signal_due_def wait_for_def)

lemma invoke_end_pending:
  assumes "futures w (call_future c) = Pending"
  shows "s < call_timeout c \<Longrightarrow> invoke_end w c (Elapsed s) = None"
    and "call_timeout c \<le> s \<Longrightarrow>
         \<exists>w'. invoke_end w c (Elapsed s) =
           Some (Raise (BioVaultAgentError
                   (JStr (''Timeout waiting for response to '' @ call_cmd c))), w')"
  using assms
  by (simp_all add: invoke_end_def invoke_resume_def wait_for_cancel_def signal_due_def
        wait_for_def)

text \<open>
  C6. A call of \<open>invoke\<close> on an open connection waits with this timeout: the \<open>timeout\<close>
  argument when one is given; otherwise \<open>long_timeout\<close> of the configuration when the
  command is one of \<open>LONG_RUNNING_COMMANDS\<close>; otherwise \<open>timeout\<close> of the configuration.
  The call starts with its future pending. While the future is pending, the caller does
  not resume before the whole timeout has elapsed, and when it has, the call raises the
  timeout error that names the command. Before the timeout has elapsed the timer plays
  no part at all: the call ends as its future alone makes it end; and once the future
  holds a response, a caller that has its turn on it, or before the timeout has elapsed,
  ends with the outcome of that response.
\<close>

theorem effective_timeout_tiers:
  assumes "ws w = Some Open"
  shows "\<exists>c w1. invoke_begin w cmd args tmo = (Inr c, w1) \<and>
     call_timeout c =
       (case tmo of
          Some t \<Rightarrow> t
        | None \<Rightarrow> if cmd \<in> set LONG_RUNNING_COMMANDS then long_timeout (config w)
                  else timeout (config w)) \<and>
     futures w1 (call_future c) = Pending \<and>
     (\<forall>w2 s. futures w2 (call_future c) = Pending \<longrightarrow>
        (s < call_timeout c \<longrightarrow> invoke_end w2 c (Elapsed s) = None) \<and>
        (call_timeout c \<le> s \<longrightarrow>
           (\<exists>w3. invoke_end w2 c (Elapsed s) =
              Some (Raise (BioVaultAgentError
                      (JStr (''Timeout waiting for response to '' @ cmd))), w3)))) \<and>
     (\<forall>w2 s. s < call_timeout c \<longrightarrow> invoke_end w2 c (Elapsed s) = invoke_end w2 c Settled) \<and>
     (\<forall>w2 d wk. futures w2 (call_future c) = Result d \<longrightarrow>
        (wk = Settled \<or> (\<exists>s. wk = Elapsed s \<and> s < call_timeout c)) \<longrightarrow>
        (\<exists>w3. invoke_end w2 c wk = Some (finish d, w3)))"
proof -
  obtain c w1 where b: "invoke_begin w cmd args tmo = (Inr c, w1)" "call_cmd c = cmd"
    "call_timeout c = (case tmo of Some t \<Rightarrow> t
                       | None \<Rightarrow> if cmd \<in> set LONG_RUNNING_COMMANDS then long_timeout (config w)
                                 else timeout (config w))"
    "call_future c = next_future w" "futures w1 (next_future w) = Pending"
    using invoke_begin_open[OF assms, of cmd args tmo] by blast
  have p: "futures w1 (call_future c) = Pending"
    using b(4,5) by simp
  have t: "\<forall>w2 s. futures w2 (call_future c) = Pending \<longrightarrow>
        (s < call_timeout c \<longrightarrow> invoke_end w2 c (Elapsed s) = None) \<and>
        (call_timeout c \<le> s \<longrightarrow>
           (\<exists>w3. invoke_end w2 c (Elapsed s) =
              Some (Raise (BioVaultAgentError
                      (JStr (''Timeout waiting for response to '' @ cmd))), w3)))"
    using invoke_end_pending[of _ c] b(2) by auto
  have e: "\<forall>w2 s. s < call_timeout c \<longrightarrow>
             invoke_end w2 c (Elapsed s) = invoke_end w2 c Settled"
    by (simp add: invoke_end_before_timeout)
  have r: "\<forall>w2 d wk. futures w2 (call_future c) = Result d \<longrightarrow>
        (wk = Settled \<or> (\<exists>s. wk = Elapsed s \<and> s < call_timeout c)) \<longrightarrow>
        (\<exists>w3. invoke_end w2 c wk = Some (finish d, w3))"
    using invoke_end_Result by blast
  show ?thesis
    by (rule exI[of _ c], rule exI[of _ w1]) (intro conjI; fact)
qed

theorem effective_timeout_tiers_witness:
  "ws (snd (connect (init default_config) True)) = Some Open
   \<and> (\<exists>c w1.
         invoke_begin (snd (connect (init default_config) True)) ''run_pipeline'' None None
           = (Inr c, w1)
         \<and> call_timeout c = 180
         \<and> futures w1 (call_future c) = Pending
         \<and> invoke_end w1 c (Elapsed 30) = None
         \<and> (\<exists>w3. invoke_end w1 c (Elapsed 180) =
               Some (Raise (BioVaultAgentError
                       (JStr ''Timeout waiting for response to run_pipeline'')), w3)))"
proof -
  have h: "ws (snd (connect (init default_config) True)) = Some Open"
    by (rule connected_world)
  from effective_timeout_tiers[OF h, of "''run_pipeline''" None None]
  obtain c w1 where
    b: "invoke_begin (snd (connect (init default_config) True)) ''run_pipeline'' None None
          = (Inr c, w1)"
       "call_timeout c =
          (case None of
             Some t \<Rightarrow> t
           | None \<Rightarrow>
               if ''run_pipeline'' \<in> set LONG_RUNNING_COMMANDS
               then long_timeout (config (snd (connect (init default_config) True)))
               else timeout (config (snd (connect (init default_config) True))))"
       "futures w1 (call_future c) = Pending"
       "\<forall>w2 s. futures w2 (call_future c) = Pending \<longrightarrow>
          (s < call_timeout c \<longrightarrow> invoke_end w2 c (Elapsed s) = None) \<and>
          (call_timeout c \<le> s \<longrightarrow>
             (\<exists>w3. invoke_end w2 c (Elapsed s) =
                Some (Raise (BioVaultAgentError
                        (JStr (''Timeout waiting for response to '' @ ''run_pipeline''))), w3)))"
    by (elim exE conjE)
  have t: "call_timeout c = 180"
    using b(2) by (simp add: connect_def init_def default_config_def LONG_RUNNING_COMMANDS_def)
  have e: "invoke_end w1 c (Elapsed 30) = None"
    using b(3,4) t by simp
  have f: "\<exists>w3. invoke_end w1 c (Elapsed 180) =
               Some (Raise (BioVaultAgentError
                       (JStr ''Timeout waiting for response to run_pipeline'')), w3)"
    using b(3,4) t by simp
  have "\<exists>c w1.
         invoke_begin (snd (connect (init default_config) True)) ''run_pipeline'' None None
           = (Inr c, w1)
         \<and> call_timeout c = 180
         \<and> futures w1 (call_future c) = Pending
         \<and> invoke_end w1 c (Elapsed 30) = None
         \<and> (\<exists>w3. invoke_end w1 c (Elapsed 180) =
               Some (Raise (BioVaultAgentError
                       (JStr ''Timeout waiting for response to run_pipeline'')), w3))"
    using b(1,3) t e f by (intro exI[of _ c] exI[of _ w1]) (intro conjI; assumption)
  with h show ?thesis by (rule conjI)
qed

subsection \<open>invoke\_with\_events without a callback\<close>

lemma begin_without_callback_unconnected:
  "ws w = None \<Longrightarrow>
   invoke_with_events_begin w cmd args None tmo = invoke_begin w cmd args tmo"
  by (simp add: invoke_with_events_begin_def invoke_begin_def)

lemma begin_without_callback_open:
  "ws w = Some Open \<Longrightarrow>
   invoke_with_events_begin w cmd args None tmo = invoke_begin w cmd args tmo"
  by (simp add: invoke_with_events_begin_def invoke_begin_def Let_def)

lemma begin_without_callback_closed:
  "ws w = Some Closed \<Longrightarrow>
   invoke_with_events_begin w cmd args None tmo =
     (fst (invoke_begin w cmd args tmo),
      (snd (invoke_begin w cmd args tmo))
        \<lparr>event_handlers := AList.delete (request_id w + 1) (event_handlers w)\<rparr>)
   \<and> (\<exists>e. fst (invoke_begin w cmd args tmo) = Inl e)
   \<and> event_handlers (snd (invoke_begin w cmd args tmo)) = event_handlers w"
  by (simp add: invoke_with_events_begin_def invoke_begin_def Let_def)

lemma end_with_events:
  "invoke_with_events_end w c wk =
     map_option (\<lambda>r. (fst r, (snd r)\<lparr>event_handlers :=
                                      AList.delete (call_id c) (event_handlers (snd r))\<rparr>))
       (invoke_end w c wk)"
  by (simp add: invoke_with_events_end_def invoke_end_def invoke_with_events_resume_def
        invoke_resume_def wait_for_cancel_def split: option.split)

lemma invoke_end_handlers:
  "invoke_end w c wk = Some r \<Longrightarrow> event_handlers (snd r) = event_handlers w"
  by (auto simp: invoke_end_def invoke_resume_def wait_for_cancel_def split: option.splits)

lemma recv_step_handlers: "event_handlers (snd (recv_step w fr)) = event_handlers w"
  by (simp add: recv_step_def Let_def split: frame.split json.split sum.split option.split)

lemma receiver_step_handlers: "event_handlers (receiver_step w fr) = event_handlers w"
  using recv_step_handlers[of w fr]
  by (cases "recv_step w fr") (auto simp: receiver_step_def split: option.split)

lemma frames_handlers: "event_handlers (foldl receiver_step w frames) = event_handlers w"
  by (induction frames arbitrary: w) (simp_all add: receiver_step_handlers)

text \<open>
  C10. For every state of the client, command, arguments, timeout, sequence of inbound
  frames and way of waking, \<open>invoke_with_events\<close> with no callback and \<open>invoke\<close> end
  alike or both keep waiting: they give the same outcome and the same state (the id
  counter, the frames sent, \<open>pending\<close>, the futures, and everything else), except
  possibly \<open>event_handlers\<close>, which only \<open>invoke_with_events\<close> clears of the call's id.
  When no callback is registered under the id about to be allocated, the two are equal
  in every respect.
\<close>

theorem invoke_with_events_without_callback:
  "map_option (\<lambda>r. (fst r, (snd r)\<lparr>event_handlers := []\<rparr>))
       (invoke_with_events w cmd args None tmo frames wk)
     = map_option (\<lambda>r. (fst r, (snd r)\<lparr>event_handlers := []\<rparr>))
         (invoke w cmd args tmo frames wk)
   \<and> (request_id w + 1 \<notin> fst ` set (event_handlers w) \<longrightarrow>
        invoke_with_events w cmd args None tmo frames wk = invoke w cmd args tmo frames wk)"
proof (cases "ws w")
  case None
  then show ?thesis
    by (simp add: invoke_with_events_def invoke_def begin_without_callback_unconnected
        invoke_begin_def)
next
  case (Some s)
  show ?thesis
  proof (cases s)
    case Open
    with Some have o: "ws w = Some Open" by simp
    obtain c w1 where b: "invoke_begin w cmd args tmo = (Inr c, w1)"
      "call_id c = request_id w + 1" "event_handlers w1 = event_handlers w"
      using invoke_begin_open[OF o, of cmd args tmo] by blast
    let ?w2 = "foldl receiver_step w1 frames"
    have i: "invoke w cmd args tmo frames wk = invoke_end ?w2 c wk"
      using b by (simp add: invoke_def)
    have e: "invoke_with_events w cmd args None tmo frames wk = invoke_with_events_end ?w2 c wk"
      using b by (simp add: invoke_with_events_def begin_without_callback_open[OF o])
    show ?thesis
    proof (cases "invoke_end ?w2 c wk")
      case None
      then show ?thesis using i e by (simp add: end_with_events)
    next
      case (Some r)
      obtain out w3 where r: "r = (out, w3)" by (cases r)
      have h: "event_handlers w3 = event_handlers w"
        using invoke_end_handlers[OF Some] frames_handlers[of w1 frames] b r by simp
      have h2: "w3\<lparr>event_handlers := event_handlers w\<rparr> = w3"
        unfolding h[symmetric] by simp
      have "invoke_with_events w cmd args None tmo frames wk =
              Some (out, w3\<lparr>event_handlers :=
                               AList.delete (request_id w + 1) (event_handlers w)\<rparr>)"
        using e Some r b h by (simp add: end_with_events)
      moreover have "invoke w cmd args tmo frames wk = Some (out, w3)"
        using i Some r by simp
      ultimately show ?thesis
        by (simp add: h2)
    qed
  next
    case Closed
    with Some have c: "ws w = Some Closed" by simp
    from begin_without_callback_closed[OF c, of cmd args tmo] obtain x where
      l: "invoke_with_events_begin w cmd args None tmo =
           (Inl x, (snd (invoke_begin w cmd args tmo))
                     \<lparr>event_handlers := AList.delete (request_id w + 1) (event_handlers w)\<rparr>)"
         "fst (invoke_begin w cmd args tmo) = Inl x"
         "event_handlers (snd (invoke_begin w cmd args tmo)) = event_handlers w"
      by auto
    have i: "invoke w cmd args tmo frames wk = Some (Raise x, snd (invoke_begin w cmd args tmo))"
      using l(2) by (cases "invoke_begin w cmd args tmo") (simp add: invoke_def)
    have e: "invoke_with_events w cmd args None tmo frames wk =
               Some (Raise x, (snd (invoke_begin w cmd args tmo))
                     \<lparr>event_handlers := AList.delete (request_id w + 1) (event_handlers w)\<rparr>)"
      using l(1) by (simp add: invoke_with_events_def)
    show ?thesis
      using i e l(3) by simp
  qed
qed

theorem invoke_with_events_without_callback_witness:
  "request_id (snd (connect (init default_config) True)) + 1
     \<notin> fst ` set (event_handlers (snd (connect (init default_config) True)))
   \<and> invoke_with_events (snd (connect (init default_config) True)) ''ping'' None None None
         [Decoded (JDict [(''id'', JInt 1), (''result'', JStr ''pong'')])] (Elapsed 0)
       = invoke (snd (connect (init default_config) True)) ''ping'' None None
           [Decoded (JDict [(''id'', JInt 1), (''result'', JStr ''pong'')])] (Elapsed 0)"
proof -
  have h: "request_id (snd (connect (init default_config) True)) + 1
             \<notin> fst ` set (event_handlers (snd (connect (init default_config) True)))"
    by (simp add: connected_world)
  from invoke_with_events_without_callback
         [of "snd (connect (init default_config) True)" "''ping''" None None
             "[Decoded (JDict [(''id'', JInt 1), (''result'', JStr ''pong'')])]" "Elapsed 0",
          THEN conjunct2, rule_format, OF h]
  show ?thesis using h by (rule conjI[rotated])
qed

subsection \<open>Events before the response\<close>

lemma receiver_step_event:
  assumes "receiver_task w = Some Running" and "map_of d ''type'' \<noteq> None"
    and "dict_get d ''id'' = JInt k" and "map_of (event_handlers w) k = Some h"
  shows "receiver_step w (Decoded (JDict d)) =
           w\<lparr>sink_calls := sink_calls w @ [(h, from_dict d)],
             printed := (case h (from_dict d) of
                           None \<Rightarrow> printed w
                         | Some msg \<Rightarrow> printed w @ [''Event handler error: '' @ msg])\<rparr>"
  using assms by (auto simp: receiver_step_def recv_step_def Let_def)

lemma events_delivered:
  assumes "receiver_task w = Some Running" and "map_of (event_handlers w) k = Some h"
    and "\<forall>d \<in> set evs. map_of d ''type'' \<noteq> None \<and> dict_get d ''id'' = JInt k"
  shows "sink_calls (foldl receiver_step w (map (\<lambda>d. Decoded (JDict d)) evs))
           = sink_calls w @ map (\<lambda>d. (h, from_dict d)) evs
         \<and> printed (foldl receiver_step w (map (\<lambda>d. Decoded (JDict d)) evs))
           = printed w @ concat (map (\<lambda>d. case h (from_dict d) of
                                             None \<Rightarrow> []
                                           | Some msg \<Rightarrow> [''Event handler error: '' @ msg]) evs)
         \<and> futures (foldl receiver_step w (map (\<lambda>d. Decoded (JDict d)) evs)) = futures w
         \<and> pending (foldl receiver_step w (map (\<lambda>d. Decoded (JDict d)) evs)) = pending w
         \<and> receiver_task (foldl receiver_step w (map (\<lambda>d. Decoded (JDict d)) evs))
             = Some Running"
  using assms
proof (induction evs arbitrary: w)
  case Nil
  then show ?case by simp
next
  case (Cons d evs)
  let ?w = "receiver_step w (Decoded (JDict d))"
  have s: "?w = w\<lparr>sink_calls := sink_calls w @ [(h, from_dict d)],
                  printed := (case h (from_dict d) of
                                None \<Rightarrow> printed w
                              | Some msg \<Rightarrow> printed w @ [''Event handler error: '' @ msg])\<rparr>"
    using Cons.prems by (intro receiver_step_event) auto
  have "receiver_task ?w = Some Running" "map_of (event_handlers ?w) k = Some h"
    using Cons.prems s by simp_all
  from Cons.IH[OF this] Cons.prems(3) show ?case
    by (simp add: s split: option.split)
qed

lemma recv_step_unknown_event:
  assumes "map_of d ''type'' \<noteq> None" and "dict_get d ''id'' = JInt k"
    and "k \<notin> fst ` set (event_handlers w)"
  shows "recv_step w (Decoded (JDict d)) = (None, w)"
proof -
  have "map_of (event_handlers w) k = None"
    using assms(3) by (simp add: map_of_eq_None_iff)
  then show ?thesis
    using assms(1,2) by (auto simp: recv_step_def Let_def)
qed

lemma recv_step_unknown_response:
  assumes "map_of d ''type'' = None" and "dict_get d ''id'' = JInt k"
    and "k \<notin> fst ` set (pending w)"
  shows "recv_step w (Decoded (JDict d)) = (None, w)"
proof -
  have "map_of (pending w) k = None"
    using assms(3) by (simp add: map_of_eq_None_iff)
  then show ?thesis
    using assms(1,2) by (simp add: recv_step_def Let_def)
qed

lemma invoke_with_events_end_Result:
  assumes "futures w (call_future c) = Result d"
    and "wk = Settled \<or> (\<exists>s. wk = Elapsed s \<and> s < call_timeout c)"
  shows "\<exists>w'. invoke_with_events_end w c wk = Some (finish d, w')
              \<and> sink_calls w' = sink_calls w \<and> printed w' = printed w"
proof -
  have "wait_for_cancel w c wk = w"
    using assms(1) by (simp add: wait_for_cancel_done)
  moreover have "wait_for (Result d) (call_timeout c) wk = Some (Inr d)"
    using wait_for_before_timeout[OF assms(2), of "Result d"] by simp
  ultimately show ?thesis
    using assms(1) by (simp add: invoke_with_events_end_def invoke_with_events_resume_def)
qed

text \<open>
  C9. A call of \<open>invoke_with_events\<close> with the callback \<open>sink\<close> is made on an open
  connection whose receive loop runs; then N event frames for its id arrive (frames with
  a \<open>type\<close> field), then its response. The receive loop has called \<open>sink\<close>, and no other
  callback, exactly N times, once with each event, in the order of arrival; every
  exception that \<open>sink\<close> raised was printed and stopped nothing. When the caller then has
  its turn on the settled future, or at any moment before its timeout has run out, the
  call ends with the outcome of the response: its true \<open>error\<close> raised, else its
  \<open>result\<close> returned. Moreover, in any state, an event frame whose id has no callback
  registered, and a response frame whose id is not in \<open>pending\<close>, leave the loop body
  without an exception and change nothing.
\<close>

theorem events_in_order_then_response:
  assumes "ws w = Some Open" and "receiver_task w = Some Running"
    and "\<forall>d \<in> set evs. map_of d ''type'' \<noteq> None \<and> dict_get d ''id'' = JInt (request_id w + 1)"
    and "map_of resp ''type'' = None" and "dict_get resp ''id'' = JInt (request_id w + 1)"
    and "wk = Settled \<or>
         (\<exists>s. wk = Elapsed s \<and>
              s < (case tmo of
                     Some t \<Rightarrow> t
                   | None \<Rightarrow> if cmd \<in> set LONG_RUNNING_COMMANDS then long_timeout (config w)
                             else timeout (config w)))"
  shows "(\<exists>w'. invoke_with_events w cmd args (Some sink) tmo
                 (map (\<lambda>d. Decoded (JDict d)) evs @ [Decoded (JDict resp)]) wk
               = Some (case map_of resp ''error'' of
                         Some e \<Rightarrow>
                           if truthy e then Raise (BioVaultAgentError e)
                           else Return (case map_of resp ''result'' of
                                          Some v \<Rightarrow> v | None \<Rightarrow> JNull)
                       | None \<Rightarrow>
                           Return (case map_of resp ''result'' of
                                     Some v \<Rightarrow> v | None \<Rightarrow> JNull), w')
             \<and> sink_calls w' = sink_calls w @ map (\<lambda>d. (sink, from_dict d)) evs
             \<and> printed w' =
                 printed w @ concat (map (\<lambda>d. case sink (from_dict d) of
                                                 None \<Rightarrow> []
                                               | Some msg \<Rightarrow> [''Event handler error: '' @ msg])
                                      evs))
       \<and> (\<forall>v d k. dict_get d ''id'' = JInt k \<longrightarrow>
            (map_of d ''type'' \<noteq> None \<and> k \<notin> fst ` set (event_handlers v)
             \<or> map_of d ''type'' = None \<and> k \<notin> fst ` set (pending v)) \<longrightarrow>
            recv_step v (Decoded (JDict d)) = (None, v))"
proof
  let ?k = "request_id w + 1"
  let ?out = "case map_of resp ''error'' of
                Some e \<Rightarrow>
                  if truthy e then Raise (BioVaultAgentError e)
                  else Return (case map_of resp ''result'' of Some v \<Rightarrow> v | None \<Rightarrow> JNull)
              | None \<Rightarrow> Return (case map_of resp ''result'' of Some v \<Rightarrow> v | None \<Rightarrow> JNull)"
  let ?log = "map (\<lambda>d. (sink, from_dict d)) evs"
  let ?msgs = "concat (map (\<lambda>d. case sink (from_dict d) of
                                   None \<Rightarrow> []
                                 | Some msg \<Rightarrow> [''Event handler error: '' @ msg]) evs)"
  obtain c w1 where b: "invoke_with_events_begin w cmd args (Some sink) tmo = (Inr c, w1)"
    "call_future c = next_future w" "map_of (pending w1) ?k = Some (next_future w)"
    "futures w1 (next_future w) = Pending" "receiver_task w1 = receiver_task w"
    "event_handlers w1 = AList.update ?k sink (event_handlers w)"
    "sink_calls w1 = sink_calls w" "printed w1 = printed w"
    "call_timeout c = (case tmo of Some t \<Rightarrow> t
                       | None \<Rightarrow> if cmd \<in> set LONG_RUNNING_COMMANDS then long_timeout (config w)
                                 else timeout (config w))"
    using invoke_with_events_begin_open[OF assms(1), of cmd args "Some sink" tmo] by auto
  let ?w2 = "foldl receiver_step w1 (map (\<lambda>d. Decoded (JDict d)) evs)"
  have h: "map_of (event_handlers w1) ?k = Some sink"
    using b(6) by (simp add: AList.update_conv')
  have r: "receiver_task w1 = Some Running"
    using b(5) assms(2) by simp
  note ev = events_delivered[OF r h assms(3)]
  let ?w3 = "receiver_step ?w2 (Decoded (JDict resp))"
  have s: "?w3 = ?w2\<lparr>futures := (futures ?w2)(next_future w := Result resp)\<rparr>"
    using ev b(3,4) assms(4,5)
    by (intro receiver_step_response[of ?w2 resp ?k "next_future w"]) simp_all
  have f: "futures ?w3 (call_future c) = Result resp"
    using s b(2) by simp
  have k: "wk = Settled \<or> (\<exists>s. wk = Elapsed s \<and> s < call_timeout c)"
    using assms(6) b(9) by simp
  from invoke_with_events_end_Result[OF f k]
  obtain w' where e: "invoke_with_events_end ?w3 c wk = Some (finish resp, w')"
    "sink_calls w' = sink_calls ?w3" "printed w' = printed ?w3"
    by blast
  have "sink_calls ?w3 = sink_calls w @ ?log" "printed ?w3 = printed w @ ?msgs"
    using s ev b(7,8) by simp_all
  with e have c1: "sink_calls w' = sink_calls w @ ?log" and c3: "printed w' = printed w @ ?msgs"
    by simp_all
  have o: "finish resp = ?out"
    by (auto simp: finish_def dict_get_def split: option.splits)
  have c2: "invoke_with_events w cmd args (Some sink) tmo
              (map (\<lambda>d. Decoded (JDict d)) evs @ [Decoded (JDict resp)]) wk
            = Some (?out, w')"
    using b(1) e(1) o by (simp add: invoke_with_events_def)
  show "\<exists>w'. invoke_with_events w cmd args (Some sink) tmo
                 (map (\<lambda>d. Decoded (JDict d)) evs @ [Decoded (JDict resp)]) wk
               = Some (?out, w')
             \<and> sink_calls w' = sink_calls w @ ?log
             \<and> printed w' = printed w @ ?msgs"
    using c1 c2 c3 by blast
next
  show "\<forall>v d k. dict_get d ''id'' = JInt k \<longrightarrow>
            (map_of d ''type'' \<noteq> None \<and> k \<notin> fst ` set (event_handlers v)
             \<or> map_of d ''type'' = None \<and> k \<notin> fst ` set (pending v)) \<longrightarrow>
            recv_step v (Decoded (JDict d)) = (None, v)"
    using recv_step_unknown_event recv_step_unknown_response by blast
qed

theorem events_in_order_then_response_witness:
  "ws (snd (connect (init default_config) True)) = Some Open
   \<and> receiver_task (snd (connect (init default_config) True)) = Some Running
   \<and> map_of [(''id'', JInt 1), (''type'', JStr ''progress''),
              (''data'', JDict [(''message'', JStr ''half'')])] ''type'' = Some (JStr ''progress'')
   \<and> dict_get [(''id'', JInt 1), (''type'', JStr ''progress''),
                (''data'', JDict [(''message'', JStr ''half'')])] ''id''
       = JInt (request_id (snd (connect (init default_config) True)) + 1)
   \<and> map_of [(''id'', JInt 1), (''type'', JStr ''progress''),
              (''data'', JDict [(''message'', JStr ''done'')])] ''type'' = Some (JStr ''progress'')
   \<and> dict_get [(''id'', JInt 1), (''type'', JStr ''progress''),
                (''data'', JDict [(''message'', JStr ''done'')])] ''id''
       = JInt (request_id (snd (connect (init default_config) True)) + 1)
   \<and> map_of [(''id'', JInt 1), (''result'', JStr ''ok'')] ''type'' = None
   \<and> dict_get [(''id'', JInt 1), (''result'', JStr ''ok'')] ''id''
       = JInt (request_id (snd (connect (init default_config) True)) + 1)
   \<and> (1::real) < timeout (config (snd (connect (init default_config) True)))
   \<and> (\<exists>w'. invoke_with_events (snd (connect (init default_config) True)) ''install_x'' None
               (Some (\<lambda>e. if ev_data e = JDict [(''message'', JStr ''half'')]
                           then Some ''boom'' else None))
               None
               [Decoded (JDict [(''id'', JInt 1), (''type'', JStr ''progress''),
                                (''data'', JDict [(''message'', JStr ''half'')])]),
                Decoded (JDict [(''id'', JInt 1), (''type'', JStr ''progress''),
                                (''data'', JDict [(''message'', JStr ''done'')])]),
                Decoded (JDict [(''id'', JInt 1), (''result'', JStr ''ok'')])]
               (Elapsed 1)
             = Some (Return (JStr ''ok''), w')
           \<and> sink_calls w' =
               [(\<lambda>e. if ev_data e = JDict [(''message'', JStr ''half'')]
                      then Some ''boom'' else None,
                 \<lparr>ev_request_id = JInt 1, event_type = JStr ''progress'',
                  ev_data = JDict [(''message'', JStr ''half'')]\<rparr>),
                (\<lambda>e. if ev_data e = JDict [(''message'', JStr ''half'')]
                      then Some ''boom'' else None,
                 \<lparr>ev_request_id = JInt 1, event_type = JStr ''progress'',
                  ev_data = JDict [(''message'', JStr ''done'')]\<rparr>)]
           \<and> printed w' = [''Event handler error: boom''])
   \<and> recv_step (snd (connect (init default_config) True))
        (Decoded (JDict [(''id'', JInt 7), (''result'', JStr ''late'')]))
       = (None, snd (connect (init default_config) True))"
proof -
  let ?w = "snd (connect (init default_config) True)"
  let ?sink = "\<lambda>e. if ev_data e = JDict [(''message'', JStr ''half'')]
                    then Some ''boom'' else None"
  let ?evs = "[[(''id'', JInt 1), (''type'', JStr ''progress''),
                (''data'', JDict [(''message'', JStr ''half'')])],
               [(''id'', JInt 1), (''type'', JStr ''progress''),
                (''data'', JDict [(''message'', JStr ''done'')])]]"
  let ?resp = "[(''id'', JInt 1), (''result'', JStr ''ok'')]"
  have h1: "ws ?w = Some Open" and h2: "receiver_task ?w = Some Running"
    by (rule connected_world)+
  have h3: "\<forall>d \<in> set ?evs. map_of d ''type'' \<noteq> None
              \<and> dict_get d ''id'' = JInt (request_id ?w + 1)"
    by (simp add: dict_get_def connected_world)
  have h4: "map_of ?resp ''type'' = None"
    by simp
  have h5: "dict_get ?resp ''id'' = JInt (request_id ?w + 1)"
    by (simp add: dict_get_def connected_world)
  have t: "(1::real) < timeout (config ?w)"
    by (simp add: connect_def init_def default_config_def)
  have h6: "Elapsed 1 = Settled \<or>
         (\<exists>s. Elapsed 1 = Elapsed s \<and>
              s < (case None of
                     Some t \<Rightarrow> t
                   | None \<Rightarrow> if ''install_x'' \<in> set LONG_RUNNING_COMMANDS
                             then long_timeout (config ?w) else timeout (config ?w)))"
    using t by (simp add: LONG_RUNNING_COMMANDS_def)
  note th = events_in_order_then_response
             [OF h1 h2 h3 h4 h5 h6, of None ?sink]
  have a: "\<exists>w'. invoke_with_events ?w ''install_x'' None (Some ?sink) None
               [Decoded (JDict [(''id'', JInt 1), (''type'', JStr ''progress''),
                                (''data'', JDict [(''message'', JStr ''half'')])]),
                Decoded (JDict [(''id'', JInt 1), (''type'', JStr ''progress''),
                                (''data'', JDict [(''message'', JStr ''done'')])]),
                Decoded (JDict [(''id'', JInt 1), (''result'', JStr ''ok'')])]
               (Elapsed 1)
             = Some (Return (JStr ''ok''), w')
           \<and> sink_calls w' =
               [(?sink,
                 \<lparr>ev_request_id = JInt 1, event_type = JStr ''progress'',
                  ev_data = JDict [(''message'', JStr ''half'')]\<rparr>),
                (?sink,
                 \<lparr>ev_request_id = JInt 1, event_type = JStr ''progress'',
                  ev_data = JDict [(''message'', JStr ''done'')]\<rparr>)]
           \<and> printed w' = [''Event handler error: boom'']"
    using th[THEN conjunct1]
    by (simp add: from_dict_def connect_def init_def)
  have b: "recv_step ?w (Decoded (JDict [(''id'', JInt 7), (''result'', JStr ''late'')]))
             = (None, ?w)"
    using th[THEN conjunct2, rule_format,
            of "[(''id'', JInt 7), (''result'', JStr ''late'')]" 7 ?w]
    by (simp add: dict_get_def connected_world)
  have e1: "map_of [(''id'', JInt 1), (''type'', JStr ''progress''),
                   (''data'', JDict [(''message'', JStr ''half'')])] ''type''
              = Some (JStr ''progress'')"
    and e2: "dict_get [(''id'', JInt 1), (''type'', JStr ''progress''),
                   (''data'', JDict [(''message'', JStr ''half'')])] ''id''
              = JInt (request_id ?w + 1)"
    and e3: "map_of [(''id'', JInt 1), (''type'', JStr ''progress''),
                   (''data'', JDict [(''message'', JStr ''done'')])] ''type''
              = Some (JStr ''progress'')"
    and e4: "dict_get [(''id'', JInt 1), (''type'', JStr ''progress''),
                   (''data'', JDict [(''message'', JStr ''done'')])] ''id''
              = JInt (request_id ?w + 1)"
    by (simp_all add: dict_get_def connected_world)
  from h1 h2 e1 e2 e3 e4 h4 h5 t a b show ?thesis
    by (intro conjI)
qed

subsection \<open>The id counter\<close>

lemma recv_step_request_id: "request_id (snd (recv_step w fr)) = request_id w"
  by (simp add: recv_step_def Let_def split: frame.split json.split sum.split option.split)

lemma receiver_step_request_id: "request_id (receiver_step w fr) = request_id w"
  using recv_step_request_id[of w fr]
  by (cases "recv_step w fr") (auto simp: receiver_step_def split: option.split)

lemma receiver_end_request_id: "request_id (receiver_end w e) = request_id w"
  by (simp add: receiver_end_def fail_all_def split: stream_end.split)

lemma wait_for_cancel_request_id: "request_id (wait_for_cancel w c wk) = request_id w"
  by (simp add: wait_for_cancel_def)

lemma invoke_resume_request_id:
  "invoke_resume w c wk = Some r \<Longrightarrow> request_id (snd r) = request_id w"
  by (auto simp: invoke_resume_def split: option.splits)

lemma invoke_with_events_resume_request_id:
  "invoke_with_events_resume w c wk = Some r \<Longrightarrow> request_id (snd r) = request_id w"
  by (auto simp: invoke_with_events_resume_def split: option.splits)

lemma invoke_end_request_id:
  "invoke_end w c wk = Some r \<Longrightarrow> request_id (snd r) = request_id w"
  using invoke_resume_request_id[of "wait_for_cancel w c wk" c wk r]
  by (simp add: invoke_end_def wait_for_cancel_request_id)

lemma invoke_with_events_end_request_id:
  "invoke_with_events_end w c wk = Some r \<Longrightarrow> request_id (snd r) = request_id w"
  using invoke_with_events_resume_request_id[of "wait_for_cancel w c wk" c wk r]
  by (simp add: invoke_with_events_end_def wait_for_cancel_request_id)

lemma invoke_begin_request_id:
  "request_id (snd (invoke_begin w cmd args tmo))
     = (if ws w = None then request_id w else request_id w + 1)"
  by (simp add: invoke_begin_def Let_def)

lemma invoke_with_events_begin_request_id:
  "request_id (snd (invoke_with_events_begin w cmd args on_event tmo))
     = (if ws w = None then request_id w else request_id w + 1)"
  by (simp add: invoke_with_events_begin_def Let_def split: option.split)

lemma connect_request_id: "request_id (snd (connect w ok)) = request_id w"
  by (simp add: connect_def)

lemma disconnect_request_id: "request_id (snd (disconnect w)) = request_id w"
  by (simp add: disconnect_def Let_def split: option.split task.split)

lemma started_agent: "agent (started s b r) = snd r"
  by (cases "fst r") (simp_all add: started_def Let_def)

lemma started_issued:
  "issued (started s b r)
     = issued s @ (if request_id (snd r) = request_id (agent s) then [] else [request_id (snd r)])"
  by (cases "fst r") (simp_all add: started_def Let_def)

lemma issued_after_start:
  assumes "0 \<le> request_id (agent s)" and "issued s = [1..request_id (agent s)]"
    and "request_id (snd r) = request_id (agent s) \<or> request_id (snd r) = request_id (agent s) + 1"
  shows "0 \<le> request_id (agent (started s b r))
         \<and> issued (started s b r) = [1..request_id (agent (started s b r))]"
proof -
  have "[1..request_id (agent s) + 1] = [1..request_id (agent s)] @ [request_id (agent s) + 1]"
    using assms(1) upto_rec2[of 1 "request_id (agent s) + 1"] by simp
  then show ?thesis
    using assms by (auto simp: started_agent started_issued)
qed

lemma step_keeps_ids:
  assumes "0 \<le> request_id (agent s)" and "issued s = [1..request_id (agent s)]"
  shows "0 \<le> request_id (agent (step s a)) \<and> issued (step s a) = [1..request_id (agent (step s a))]"
proof (cases a)
  case (Invoke cmd args tmo)
  then show ?thesis
    using issued_after_start[OF assms, of "invoke_begin (agent s) cmd args tmo" False]
    by (simp add: invoke_begin_request_id)
next
  case (InvokeWithEvents cmd args on_event tmo)
  then show ?thesis
    using issued_after_start[OF assms,
            of "invoke_with_events_begin (agent s) cmd args on_event tmo" True]
    by (simp add: invoke_with_events_begin_request_id)
next
  case (Frame fr)
  then show ?thesis using assms by (simp add: receiver_step_request_id)
next
  case (StreamEnd e)
  then show ?thesis using assms by (simp add: receiver_end_request_id)
next
  case (Signal rid wk)
  then show ?thesis
    using assms by (auto simp: wait_for_cancel_request_id split: option.splits)
next
  case (Resume rid wk)
  then show ?thesis
    using assms invoke_resume_request_id invoke_with_events_resume_request_id
    by (auto split: option.splits)
next
  case (Wake rid wk)
  then show ?thesis
    using assms invoke_end_request_id invoke_with_events_end_request_id
    by (auto split: option.splits)
next
  case (Connect ok)
  then show ?thesis using assms by (simp add: connect_request_id)
next
  case Disconnect
  then show ?thesis using assms by (simp add: disconnect_request_id)
qed

lemma run_keeps_ids:
  "0 \<le> request_id (agent s) \<Longrightarrow> issued s = [1..request_id (agent s)] \<Longrightarrow>
   issued (run s acts) = [1..request_id (agent (run s acts))]"
  unfolding run_def
proof (induction acts arbitrary: s)
  case Nil
  then show ?case by simp
next
  case (Cons a acts)
  from step_keeps_ids[OF Cons.prems, of a] Cons.IH[of "step s a"] show ?case
    by simp
qed

text \<open>
  C5, as the code has it. Over the whole life of a client object, whatever is done with it
  (calls, frames, wake-ups, connects, disconnects, in any order), the ids handed out are
  1, 2, 3, ... in this order: the first is 1, each is one more than the one before, none
  is used twice. \<open>connect\<close> and \<open>disconnect\<close> leave the counter as it is, so the ids go
  on after a reconnect.
\<close>

theorem ids_count_up_across_connections:
  "issued (run (boot cfg) acts) = [1..request_id (agent (run (boot cfg) acts))]
   \<and> request_id (snd (connect w ok)) = request_id w
   \<and> request_id (snd (disconnect w)) = request_id w"
  using run_keeps_ids[of "boot cfg" acts]
  by (simp add: boot_def init_def connect_request_id disconnect_request_id)

text \<open>
  C5 as it is stated fails: after a disconnect and a second connect, the first call gets
  the id 2.
\<close>

theorem first_id_after_reconnect_counterexample:
  "issued (run (boot default_config)
             [Connect True, Invoke ''ping'' None None, Wake 1 CancelRequested, Disconnect,
              Connect True, Invoke ''ping'' None None]) = [1, 2]"
  by (simp add: run_def boot_def default_config_def init_def connect_def disconnect_def
        started_def invoke_begin_def invoke_end_def invoke_resume_def wait_for_cancel_def
        signal_due_def wait_for_def LONG_RUNNING_COMMANDS_def)

subsection \<open>Loss of the connection, and disconnect\<close>

lemma fail_one_apply:
  "fail_one fs x a =
     (if a = x \<and> fs x = Pending
      then Exception (BioVaultAgentError (JStr ''Connection closed'')) else fs a)"
  by (simp add: fail_one_def future_done_def)

lemma foldl_fail_one:
  "foldl fail_one fs xs a =
     (if a \<in> set xs \<and> fs a = Pending
      then Exception (BioVaultAgentError (JStr ''Connection closed'')) else fs a)"
proof (induction xs arbitrary: fs)
  case Nil
  then show ?case by simp
next
  case (Cons x xs)
  have "foldl fail_one fs (x # xs) a = foldl fail_one (fail_one fs x) xs a"
    by simp
  also have "\<dots> = (if a \<in> set xs \<and> fail_one fs x a = Pending
                    then Exception (BioVaultAgentError (JStr ''Connection closed''))
                    else fail_one fs x a)"
    by (rule Cons.IH)
  also have "\<dots> = (if a \<in> set (x # xs) \<and> fs a = Pending
                    then Exception (BioVaultAgentError (JStr ''Connection closed''))
                    else fs a)"
    by (auto simp: fail_one_apply)
  finally show ?case .
qed

lemma fail_all_futures:
  "futures (fail_all w) a =
     (if a \<in> snd ` set (pending w) \<and> futures w a = Pending
      then Exception (BioVaultAgentError (JStr ''Connection closed'')) else futures w a)"
  by (simp add: fail_all_def foldl_fail_one)

lemma receiver_end_closed_futures:
  "receiver_task w = Some Running \<Longrightarrow>
   futures (receiver_end w RaisesConnectionClosed) = futures (fail_all w)
   \<and> receiver_task (receiver_end w RaisesConnectionClosed) = Some (Finished None)
   \<and> pending (receiver_end w RaisesConnectionClosed) = pending w"
  by (simp add: receiver_end_def fail_all_def)

lemma receiver_end_idle:
  "receiver_task w \<noteq> Some Running \<Longrightarrow> receiver_end w e = w"
  by (simp add: receiver_end_def)

lemma invoke_end_settled:
  "futures w (call_future c) \<noteq> Pending \<Longrightarrow> invoke_end w c wk \<noteq> None"
  by (cases "futures w (call_future c)"; cases wk)
     (simp_all add: invoke_end_def invoke_resume_def wait_for_cancel_def wait_for_def)

lemma disconnect_keeps:
  "futures (snd (disconnect w)) = futures w \<and> pending (snd (disconnect w)) = pending w
   \<and> receiver_task (snd (disconnect w)) \<noteq> Some Running"
  by (simp add: disconnect_def Let_def split: option.split task.split)

text \<open>
  \<open>disconnect\<close> closes the socket unless the receiver task had ended with an exception
  other than \<open>CancelledError\<close>: then the \<open>await\<close> raises it again and the socket is left
  as it was.
\<close>

lemma disconnect_socket:
  "ws (snd (disconnect w)) = (if fst (disconnect w) = None then None else ws w)"
  by (simp add: disconnect_def Let_def split: option.split task.split)

text \<open>
  The path that works. When the closure of the transport reaches the running receive
  loop as \<open>ConnectionClosed\<close>, every future in \<open>pending\<close> that is still pending is given
  the failure \<open>Connection closed\<close>, every other future is left as it is, and then the
  loop has ended without an exception: it handles no further end of the stream, so the
  failing happens once. After that every caller whose future is in \<open>pending\<close> resumes,
  however it is woken.
\<close>

lemma connection_closed_fails_pending:
  assumes "receiver_task w = Some Running"
  shows "(\<forall>a. futures (receiver_end w RaisesConnectionClosed) a =
            (if a \<in> snd ` set (pending w) \<and> futures w a = Pending
             then Exception (BioVaultAgentError (JStr ''Connection closed''))
             else futures w a))
       \<and> receiver_task (receiver_end w RaisesConnectionClosed) = Some (Finished None)
       \<and> (\<forall>e. receiver_end (receiver_end w RaisesConnectionClosed) e
               = receiver_end w RaisesConnectionClosed)
       \<and> (\<forall>c wk. call_future c \<in> snd ` set (pending w) \<longrightarrow>
             invoke_end (receiver_end w RaisesConnectionClosed) c wk \<noteq> None)"
proof -
  let ?w = "receiver_end w RaisesConnectionClosed"
  have f: "\<forall>a. futures ?w a =
            (if a \<in> snd ` set (pending w) \<and> futures w a = Pending
             then Exception (BioVaultAgentError (JStr ''Connection closed''))
             else futures w a)"
    using receiver_end_closed_futures[OF assms] by (simp add: fail_all_futures)
  have t: "receiver_task ?w = Some (Finished None)"
    using receiver_end_closed_futures[OF assms] by simp
  have i: "\<forall>e. receiver_end ?w e = ?w"
    using t by (simp add: receiver_end_idle)
  have n: "\<forall>c wk. call_future c \<in> snd ` set (pending w) \<longrightarrow> invoke_end ?w c wk \<noteq> None"
  proof (intro allI impI)
    fix c :: call and wk :: wake
    assume "call_future c \<in> snd ` set (pending w)"
    then have "futures ?w (call_future c) \<noteq> Pending"
      using f by simp
    then show "invoke_end ?w c wk \<noteq> None"
      by (rule invoke_end_settled)
  qed
  show ?thesis
    using f t i n by (intro conjI) simp_all
qed

text \<open>
  C3 fails on the code. The failing of the pending futures sits in the handler of
  \<open>ConnectionClosed\<close> alone, and two ways of ending the connection never reach it. A call
  with id 1 is waiting.

  When the peer closes the connection normally, the iteration over the socket ends
  without an exception: the receive loop is over, the future of the call is still
  pending and its entry still in \<open>pending\<close>; the caller does not resume, and the call
  ends only by its own timeout, with the timeout error.

  When \<open>disconnect\<close> is called, it cancels the receive loop and returns without an
  exception: again the future is still pending, the entry still in \<open>pending\<close>, and the
  caller still suspended.

  Only when the closure is raised in the loop as \<open>ConnectionClosed\<close> does the call end
  with the failure \<open>Connection closed\<close>.
\<close>

theorem shutdown_leaves_caller_waiting:
  "receiver_task (agent (run (boot default_config)
       [Connect True, Invoke ''ping'' None None, StreamEnd Exhausted])) = Some (Finished None)
   \<and> futures (agent (run (boot default_config)
       [Connect True, Invoke ''ping'' None None, StreamEnd Exhausted])) 0 = Pending
   \<and> pending (agent (run (boot default_config)
       [Connect True, Invoke ''ping'' None None, StreamEnd Exhausted])) = [(1, 0)]
   \<and> outcomes (run (boot default_config)
       [Connect True, Invoke ''ping'' None None, StreamEnd Exhausted,
        Wake 1 Settled, Wake 1 (Elapsed 1)]) = []
   \<and> outcomes (run (boot default_config)
       [Connect True, Invoke ''ping'' None None, StreamEnd Exhausted, Wake 1 (Elapsed 30)])
       = [(Some 1, Raise (BioVaultAgentError (JStr ''Timeout waiting for response to ping'')))]
   \<and> fst (disconnect (agent (run (boot default_config)
       [Connect True, Invoke ''ping'' None None]))) = None
   \<and> futures (agent (run (boot default_config)
       [Connect True, Invoke ''ping'' None None, Disconnect])) 0 = Pending
   \<and> pending (agent (run (boot default_config)
       [Connect True, Invoke ''ping'' None None, Disconnect])) = [(1, 0)]
   \<and> outcomes (run (boot default_config)
       [Connect True, Invoke ''ping'' None None, Disconnect,
        Wake 1 Settled, Wake 1 (Elapsed 1)]) = []
   \<and> map fst (suspended (run (boot default_config)
       [Connect True, Invoke ''ping'' None None, Disconnect,
        Wake 1 Settled, Wake 1 (Elapsed 1)])) = [1]
   \<and> outcomes (run (boot default_config)
       [Connect True, Invoke ''ping'' None None, StreamEnd RaisesConnectionClosed,
        Wake 1 Settled])
       = [(Some 1, Raise (BioVaultAgentError (JStr ''Connection closed'')))]"
  by (simp add: run_def boot_def default_config_def init_def connect_def disconnect_def
        started_def invoke_begin_def invoke_end_def invoke_resume_def wait_for_cancel_def
        signal_due_def wait_for_def receiver_end_def fail_all_def fail_one_def
        future_done_def LONG_RUNNING_COMMANDS_def)

subsection \<open>Frames that make the loop body raise\<close>

lemma receiver_step_idle:
  "receiver_task w \<noteq> Some Running \<Longrightarrow> receiver_step w fr = w"
  by (simp add: receiver_step_def)

lemma frames_idle:
  "receiver_task w \<noteq> Some Running \<Longrightarrow> foldl receiver_step w frames = w"
  by (induction frames) (simp_all add: receiver_step_idle)

lemma receiver_step_undecodable:
  "receiver_task w = Some Running \<Longrightarrow>
   receiver_step w Undecodable = w\<lparr>receiver_task := Some (Finished (Some JSONDecodeError))\<rparr>"
  by (simp add: receiver_step_def recv_step_def)

text \<open>
  C2, as the code has it. When a frame that does not decode reaches the running receive
  loop, \<open>json.loads\<close> raises and the exception ends the loop: the frames before it have
  been handled, the state is otherwise as they left it (nothing is printed, no future is
  settled), the frames after it are not handled, and no handler runs when the stream ends.
\<close>

theorem undecodable_frame_ends_receive_loop:
  assumes "receiver_task (foldl receiver_step w pre) = Some Running"
  shows "receive_loop w (pre @ Undecodable # post) e =
           (foldl receiver_step w pre)\<lparr>receiver_task := Some (Finished (Some JSONDecodeError))\<rparr>"
proof -
  let ?v = "foldl receiver_step w pre"
  let ?u = "?v\<lparr>receiver_task := Some (Finished (Some JSONDecodeError))\<rparr>"
  have "foldl receiver_step w (pre @ Undecodable # post) = foldl receiver_step ?u post"
    using receiver_step_undecodable[OF assms] by simp
  also have "\<dots> = ?u"
    by (rule frames_idle) simp
  finally show ?thesis
    by (simp add: receive_loop_def receiver_end_idle)
qed

theorem undecodable_frame_ends_receive_loop_witness:
  "receiver_task (foldl receiver_step
       (agent (run (boot default_config) [Connect True, Invoke ''ping'' None None])) [])
     = Some Running
   \<and> receive_loop (agent (run (boot default_config) [Connect True, Invoke ''ping'' None None]))
        ([] @ Undecodable # [Decoded (JDict [(''id'', JInt 1), (''result'', JStr ''pong'')])])
        RaisesConnectionClosed
       = (foldl receiver_step
            (agent (run (boot default_config) [Connect True, Invoke ''ping'' None None])) [])
         \<lparr>receiver_task := Some (Finished (Some JSONDecodeError))\<rparr>"
proof -
  let ?w = "agent (run (boot default_config) [Connect True, Invoke ''ping'' None None])"
  have h: "receiver_task (foldl receiver_step ?w []) = Some Running"
    by (simp add: run_def boot_def default_config_def init_def connect_def started_def
          invoke_begin_def LONG_RUNNING_COMMANDS_def)
  from h undecodable_frame_ends_receive_loop[OF h,
         of "[Decoded (JDict [(''id'', JInt 1), (''result'', JStr ''pong'')])]"
            RaisesConnectionClosed]
  show ?thesis by (rule conjI)
qed

text \<open>
  C2 as it is stated fails: a frame that does not decode arrives, then the response of the
  waiting call. The receive loop has ended with \<open>JSONDecodeError\<close>, nothing was printed,
  the response was not routed (the future is still pending), and the call ends with the
  timeout error.
\<close>

theorem undecodable_frame_counterexample:
  "receiver_task (agent (run (boot default_config)
      [Connect True, Invoke ''ping'' None None, Frame Undecodable,
       Frame (Decoded (JDict [(''id'', JInt 1), (''result'', JStr ''pong'')]))]))
     = Some (Finished (Some JSONDecodeError))
   \<and> printed (agent (run (boot default_config)
      [Connect True, Invoke ''ping'' None None, Frame Undecodable,
       Frame (Decoded (JDict [(''id'', JInt 1), (''result'', JStr ''pong'')]))])) = []
   \<and> futures (agent (run (boot default_config)
      [Connect True, Invoke ''ping'' None None, Frame Undecodable,
       Frame (Decoded (JDict [(''id'', JInt 1), (''result'', JStr ''pong'')]))])) 0 = Pending
   \<and> outcomes (run (boot default_config)
      [Connect True, Invoke ''ping'' None None, Frame Undecodable,
       Frame (Decoded (JDict [(''id'', JInt 1), (''result'', JStr ''pong'')])),
       Wake 1 (Elapsed 30)])
     = [(Some 1, Raise (BioVaultAgentError (JStr ''Timeout waiting for response to ping'')))]"
  by (simp add: run_def boot_def default_config_def init_def connect_def started_def
        invoke_begin_def invoke_end_def invoke_resume_def wait_for_cancel_def signal_due_def
        wait_for_def receiver_step_def recv_step_def LONG_RUNNING_COMMANDS_def)

text \<open>
  C4 fails on the code. A call is waiting; its response arrives and settles the future;
  the same response arrives again before the caller has resumed and removed its entry.
  \<open>set_result\<close> on the settled future raises \<open>InvalidStateError\<close> in the loop body, and
  the receive loop ends with it. The future keeps its first result.
\<close>

theorem duplicate_response_stops_receive_loop:
  "fst (recv_step
          (agent (run (boot default_config)
             [Connect True, Invoke ''ping'' None None,
              Frame (Decoded (JDict [(''id'', JInt 1), (''result'', JStr ''pong'')]))]))
          (Decoded (JDict [(''id'', JInt 1), (''result'', JStr ''pong'')])))
     = Some InvalidStateError
   \<and> receiver_task (agent (run (boot default_config)
        [Connect True, Invoke ''ping'' None None,
         Frame (Decoded (JDict [(''id'', JInt 1), (''result'', JStr ''pong'')])),
         Frame (Decoded (JDict [(''id'', JInt 1), (''result'', JStr ''pong'')]))]))
       = Some (Finished (Some InvalidStateError))
   \<and> futures (agent (run (boot default_config)
        [Connect True, Invoke ''ping'' None None,
         Frame (Decoded (JDict [(''id'', JInt 1), (''result'', JStr ''pong'')])),
         Frame (Decoded (JDict [(''id'', JInt 1), (''result'', JStr ''pong'')]))])) 0
       = Result [(''id'', JInt 1), (''result'', JStr ''pong'')]"
  by (simp add: run_def boot_def default_config_def init_def connect_def started_def
        invoke_begin_def receiver_step_def recv_step_def dict_get_def set_result_def
        future_done_def LONG_RUNNING_COMMANDS_def)

text \<open>
  C1 fails on the code, by the same defect. Two calls are waiting, with ids 1 and 2; in
  both runs below the callers are woken in the same way. When their responses arrive one
  after the other, each call returns its own result. When the response for id 1 arrives
  twice, the receive loop ends at the duplicate, the response for id 2 is never routed,
  caller 2 does not resume on its future, and call 2 ends with the timeout error: a
  response carrying another id has changed its outcome.
\<close>

theorem other_id_response_changes_outcome:
  "outcomes (run (boot default_config)
      [Connect True, Invoke ''a'' None None, Invoke ''b'' None None,
       Frame (Decoded (JDict [(''id'', JInt 1), (''result'', JStr ''x'')])),
       Frame (Decoded (JDict [(''id'', JInt 2), (''result'', JStr ''y'')])),
       Wake 1 Settled, Wake 2 Settled, Wake 2 (Elapsed 30)])
     = [(Some 1, Return (JStr ''x'')), (Some 2, Return (JStr ''y''))]
   \<and> outcomes (run (boot default_config)
      [Connect True, Invoke ''a'' None None, Invoke ''b'' None None,
       Frame (Decoded (JDict [(''id'', JInt 1), (''result'', JStr ''x'')])),
       Frame (Decoded (JDict [(''id'', JInt 1), (''result'', JStr ''x'')])),
       Frame (Decoded (JDict [(''id'', JInt 2), (''result'', JStr ''y'')])),
       Wake 1 Settled, Wake 2 Settled, Wake 2 (Elapsed 30)])
     = [(Some 1, Return (JStr ''x'')),
        (Some 2, Raise (BioVaultAgentError (JStr ''Timeout waiting for response to b'')))]"
  by (simp add: run_def boot_def default_config_def init_def connect_def started_def
        invoke_begin_def invoke_end_def invoke_resume_def wait_for_cancel_def signal_due_def
        wait_for_def finish_def receiver_step_def recv_step_def
        dict_get_def set_result_def future_done_def LONG_RUNNING_COMMANDS_def)

text \<open>
  The same exception has a second way in. When the timeout of a call runs out, its
  future is cancelled a round of the event loop before the caller removes the entry; a
  response for the call that is handled in between finds the cancelled future, and the
  receive loop ends with \<open>InvalidStateError\<close>.
\<close>

lemma late_response_after_timeout_stops_receive_loop:
  "receiver_task (agent (run (boot default_config)
      [Connect True, Invoke ''ping'' None None, Signal 1 (Elapsed 30),
       Frame (Decoded (JDict [(''id'', JInt 1), (''result'', JStr ''pong'')]))]))
     = Some (Finished (Some InvalidStateError))
   \<and> outcomes (run (boot default_config)
      [Connect True, Invoke ''ping'' None None, Signal 1 (Elapsed 30),
       Frame (Decoded (JDict [(''id'', JInt 1), (''result'', JStr ''pong'')])),
       Resume 1 (Elapsed 30)])
     = [(Some 1, Raise (BioVaultAgentError (JStr ''Timeout waiting for response to ping'')))]"
  by (simp add: run_def boot_def default_config_def init_def connect_def started_def
        invoke_begin_def invoke_resume_def wait_for_cancel_def signal_due_def
        wait_for_def receiver_step_def recv_step_def
        dict_get_def set_result_def future_done_def LONG_RUNNING_COMMANDS_def)

text \<open>\<open>Wake\<close> is \<open>Signal\<close> followed at once by \<open>Resume\<close>.\<close>

lemma no_turn_no_cancel:
  "wait_for (futures (wait_for_cancel w c wk) (call_future c)) (call_timeout c) wk = None \<Longrightarrow>
   wait_for_cancel w c wk = w"
  by (cases wk) (auto simp: wait_for_cancel_def signal_due_def wait_for_def split: if_splits)

lemma wake_is_signal_then_resume:
  "step s (Wake rid wk) = step (step s (Signal rid wk)) (Resume rid wk)"
proof (cases "map_of (suspended s) rid")
  case None
  then show ?thesis by simp
next
  case (Some bc)
  obtain b c where bc: "bc = (b, c)" by (cases bc)
  let ?w = "wait_for_cancel (agent s) c wk"
  show ?thesis
  proof (cases "wait_for (futures ?w (call_future c)) (call_timeout c) wk")
    case None
    then have "?w = agent s" by (rule no_turn_no_cancel)
    with None Some bc show ?thesis
      by (simp add: invoke_end_def invoke_with_events_end_def invoke_resume_def
            invoke_with_events_resume_def)
  next
    case (Some r)
    with \<open>map_of (suspended s) rid = Some bc\<close> bc show ?thesis
      by (simp add: invoke_end_def invoke_with_events_end_def invoke_resume_def
            invoke_with_events_resume_def)
  qed
qed

subsection \<open>Callbacks are registered under ids already handed out\<close>

text \<open>
  In every state a client reaches from \<open>boot\<close>, the keys of \<open>event_handlers\<close> are ids that
  have been handed out; none sits under the id the next call will get. So in every such
  state \<open>invoke_with_events\<close> without a callback and \<open>invoke\<close> agree in every respect.
\<close>

lemma invoke_begin_handlers:
  "event_handlers (snd (invoke_begin w cmd args tmo)) = event_handlers w"
  by (simp add: invoke_begin_def Let_def)

lemma invoke_with_events_begin_handlers:
  "event_handlers (snd (invoke_with_events_begin w cmd args on_event tmo)) =
     (let hs = (case on_event of
                  None \<Rightarrow> event_handlers w
                | Some h \<Rightarrow> AList.update (request_id w + 1) h (event_handlers w))
      in if ws w = None then event_handlers w
         else if ws w = Some Open then hs
         else AList.delete (request_id w + 1) hs)"
  by (simp add: invoke_with_events_begin_def Let_def split: option.split)

lemma invoke_with_events_begin_keys:
  "fst ` set (event_handlers (snd (invoke_with_events_begin w cmd args on_event tmo)))
     \<subseteq> (if ws w = None then fst ` set (event_handlers w)
         else insert (request_id w + 1) (fst ` set (event_handlers w)))"
proof -
  let ?hs = "case on_event of
               None \<Rightarrow> event_handlers w
             | Some h \<Rightarrow> AList.update (request_id w + 1) h (event_handlers w)"
  have u: "fst ` set ?hs \<subseteq> insert (request_id w + 1) (fst ` set (event_handlers w))"
    by (cases on_event) (simp_all add: AList.dom_update subset_insertI)
  have d: "fst ` set (AList.delete (request_id w + 1) ?hs) \<subseteq> fst ` set ?hs"
    by (rule AList.dom_delete_subset)
  from u d have
    "fst ` set (AList.delete (request_id w + 1) ?hs)
       \<subseteq> insert (request_id w + 1) (fst ` set (event_handlers w))"
    by (rule order_trans[rotated])
  with u show ?thesis
    by (simp add: invoke_with_events_begin_handlers Let_def)
qed

lemma wait_for_cancel_handlers: "event_handlers (wait_for_cancel w c wk) = event_handlers w"
  by (simp add: wait_for_cancel_def)

lemma invoke_resume_handlers:
  "invoke_resume w c wk = Some r \<Longrightarrow> event_handlers (snd r) = event_handlers w"
  by (auto simp: invoke_resume_def split: option.splits)

lemma invoke_with_events_resume_handlers:
  "invoke_with_events_resume w c wk = Some r \<Longrightarrow>
   event_handlers (snd r) = AList.delete (call_id c) (event_handlers w)"
  by (auto simp: invoke_with_events_resume_def split: option.splits)

lemma invoke_with_events_resume_keys:
  "invoke_with_events_resume w c wk = Some r \<Longrightarrow>
   fst ` set (event_handlers (snd r)) \<subseteq> fst ` set (event_handlers w)"
  using AList.dom_delete_subset[of "call_id c" "event_handlers w"]
  by (simp add: invoke_with_events_resume_handlers)

lemma keys_below_mono:
  "\<forall>k \<in> A. k \<le> (n::int) \<Longrightarrow> B \<subseteq> insert (n + 1) A \<Longrightarrow> \<forall>k \<in> B. k \<le> n + 1"
  by fastforce

lemma keys_below_subset:
  "\<forall>k \<in> A. k \<le> (n::int) \<Longrightarrow> B \<subseteq> A \<Longrightarrow> \<forall>k \<in> B. k \<le> n"
  by blast

lemma receiver_end_handlers: "event_handlers (receiver_end w e) = event_handlers w"
  by (simp add: receiver_end_def fail_all_def split: stream_end.split)

lemma connect_handlers: "event_handlers (snd (connect w ok)) = event_handlers w"
  by (simp add: connect_def)

lemma disconnect_handlers: "event_handlers (snd (disconnect w)) = event_handlers w"
  by (simp add: disconnect_def Let_def split: option.split task.split)

lemma signal_keeps_handler_keys:
  assumes "\<forall>k \<in> fst ` set (event_handlers (agent s)). k \<le> request_id (agent s)"
  shows "\<forall>k \<in> fst ` set (event_handlers (agent (step s (Signal rid wk)))).
           k \<le> request_id (agent (step s (Signal rid wk)))"
  using assms
  by (auto simp: wait_for_cancel_handlers wait_for_cancel_request_id split: option.splits)

lemma resume_keeps_handler_keys:
  assumes "\<forall>k \<in> fst ` set (event_handlers (agent s)). k \<le> request_id (agent s)"
  shows "\<forall>k \<in> fst ` set (event_handlers (agent (step s (Resume rid wk)))).
           k \<le> request_id (agent (step s (Resume rid wk)))"
proof -
  show ?thesis
  proof (cases "map_of (suspended s) rid")
    case None
    with assms show ?thesis by simp
  next
    case (Some bc)
    obtain b c where bc: "bc = (b, c)" by (cases bc)
    show ?thesis
    proof (cases b)
      case True
      show ?thesis
      proof (cases "invoke_with_events_resume (agent s) c wk")
        case None
        with Some bc True assms show ?thesis by simp
      next
        case (Some r)
        obtain out w' where r: "r = (out, w')" by (cases r)
        from invoke_with_events_resume_keys[OF Some] invoke_with_events_resume_request_id[OF Some]
        have sub: "fst ` set (event_handlers w') \<subseteq> fst ` set (event_handlers (agent s))"
          and req: "request_id w' = request_id (agent s)"
          using r by simp_all
        from keys_below_subset[OF assms sub] req
        have "\<forall>k \<in> fst ` set (event_handlers w'). k \<le> request_id w'"
          by simp
        with \<open>map_of (suspended s) rid = Some bc\<close> bc True Some r show ?thesis
          by simp
      qed
    next
      case False
      show ?thesis
      proof (cases "invoke_resume (agent s) c wk")
        case None
        with Some bc False assms show ?thesis by simp
      next
        case (Some r)
        obtain out w' where r: "r = (out, w')" by (cases r)
        from invoke_resume_handlers[OF Some] invoke_resume_request_id[OF Some]
        have "event_handlers w' = event_handlers (agent s)"
          "request_id w' = request_id (agent s)"
          using r by simp_all
        with assms have "\<forall>k \<in> fst ` set (event_handlers w'). k \<le> request_id w'"
          by simp
        with \<open>map_of (suspended s) rid = Some bc\<close> bc False Some r show ?thesis
          by simp
      qed
    qed
  qed
qed

lemma step_keeps_handler_keys:
  assumes "\<forall>k \<in> fst ` set (event_handlers (agent s)). k \<le> request_id (agent s)"
  shows "\<forall>k \<in> fst ` set (event_handlers (agent (step s a))). k \<le> request_id (agent (step s a))"
proof (cases a)
  case (Invoke cmd args tmo)
  have "\<forall>k \<in> fst ` set (event_handlers (agent s)). k \<le> request_id (agent s) + 1"
    using assms by fastforce
  with Invoke assms show ?thesis
    by (simp add: started_agent invoke_begin_handlers invoke_begin_request_id)
next
  case (InvokeWithEvents cmd args on_event tmo)
  let ?w' = "snd (invoke_with_events_begin (agent s) cmd args on_event tmo)"
  have "\<forall>k \<in> fst ` set (event_handlers ?w'). k \<le> request_id ?w'"
  proof (cases "ws (agent s) = None")
    case True
    with invoke_with_events_begin_keys[of "agent s" cmd args on_event tmo] have
      "fst ` set (event_handlers ?w') \<subseteq> fst ` set (event_handlers (agent s))"
      by simp
    moreover have "request_id ?w' = request_id (agent s)"
      using True by (simp add: invoke_with_events_begin_request_id)
    ultimately show ?thesis
      using keys_below_subset[OF assms] by simp
  next
    case False
    with invoke_with_events_begin_keys[of "agent s" cmd args on_event tmo] have
      "fst ` set (event_handlers ?w')
         \<subseteq> insert (request_id (agent s) + 1) (fst ` set (event_handlers (agent s)))"
      by simp
    moreover have "request_id ?w' = request_id (agent s) + 1"
      using False by (simp add: invoke_with_events_begin_request_id)
    ultimately show ?thesis
      using keys_below_mono[OF assms] by simp
  qed
  with InvokeWithEvents show ?thesis
    by (simp add: started_agent)
next
  case (Frame fr)
  then show ?thesis
    using assms by (simp add: receiver_step_handlers receiver_step_request_id)
next
  case (StreamEnd e)
  then show ?thesis
    using assms by (simp add: receiver_end_handlers receiver_end_request_id)
next
  case (Signal rid wk)
  then show ?thesis
    using signal_keeps_handler_keys[OF assms] by simp
next
  case (Resume rid wk)
  then show ?thesis
    using resume_keeps_handler_keys[OF assms] by simp
next
  case (Wake rid wk)
  then show ?thesis
    using resume_keeps_handler_keys[OF signal_keeps_handler_keys[OF assms, of rid wk], of rid wk]
    by (simp only: wake_is_signal_then_resume)
next
  case (Connect ok)
  then show ?thesis
    using assms by (simp add: connect_handlers connect_request_id)
next
  case Disconnect
  then show ?thesis
    using assms by (simp add: disconnect_handlers disconnect_request_id)
qed

lemma run_keeps_handler_keys:
  "\<forall>k \<in> fst ` set (event_handlers (agent s)). k \<le> request_id (agent s) \<Longrightarrow>
   \<forall>k \<in> fst ` set (event_handlers (agent (run s acts))). k \<le> request_id (agent (run s acts))"
  unfolding run_def
proof (induction acts arbitrary: s)
  case Nil
  then show ?case by simp
next
  case (Cons a acts)
  from Cons.IH[OF step_keeps_handler_keys[OF Cons.prems, of a]] show ?case
    by simp
qed

lemma no_callback_under_next_id:
  "request_id (agent (run (boot cfg) acts)) + 1
     \<notin> fst ` set (event_handlers (agent (run (boot cfg) acts)))"
proof -
  have "\<forall>k \<in> fst ` set (event_handlers (agent (run (boot cfg) acts))).
          k \<le> request_id (agent (run (boot cfg) acts))"
    by (rule run_keeps_handler_keys) (simp add: boot_def init_def)
  then show ?thesis by fastforce
qed

subsection \<open>Frames for other entries\<close>

text \<open>
  What does hold of C1: a frame that the loop body handles without raising changes no
  future but the one its own id is registered with.
\<close>

lemma frame_settles_own_entry_only:
  assumes "recv_step w (Decoded (JDict d)) = (None, w')"
    and "int_key (dict_get d ''id'') = Inr (Some k)" and "map_of (pending w) k \<noteq> Some a"
  shows "futures w' a = futures w a \<and> pending w' = pending w"
  using assms
  by (auto simp: recv_step_def Let_def set_result_def
      split: if_splits option.splits sum.splits)

end
